theory Spec2Isabelle
  imports Main
begin

section \<open>Records\<close>

text \<open>
  Modelled from the spec: the declarations \<open>User\<close> and \<open>InsertUser\<close> of \<open>@shared/schema\<close>
  are imported by \<open>storage.ts\<close> but are not among the sources. Section 3 of the
  specification gives a record an id, a username and one opaque payload field; the route
  handlers build \<open>{ username, password }\<close> and read \<open>user.password\<close>. An \<open>InsertUser\<close> is a
  record without the id, a \<open>User\<close> is an \<open>InsertUser\<close> extended by the id (field \<open>id\<close> of the
  source, named \<open>user_id\<close> here because \<open>id\<close> is the identity function of HOL), and a
  \<open>Partial<InsertUser>\<close> has each field of \<open>InsertUser\<close> present or not.
\<close>

record InsertUser =
  username :: string
  password :: string

record User = InsertUser +
  user_id :: string

record Patch =
  patch_username :: "string option"
  patch_password :: "string option"

text \<open>The object spread \<open>{ ...insertUser, id }\<close> of \<open>createUser\<close>.\<close>

definition spread_id :: "InsertUser \<Rightarrow> string \<Rightarrow> User" where
  "spread_id insertUser i =
     \<lparr>username = username insertUser, password = password insertUser, user_id = i\<rparr>"

text \<open>The object spread \<open>{ ...existing, ...patch }\<close> of \<open>updateUser\<close>: a field that the patch
  has replaces the field of \<open>existing\<close>; the patch type has no id.\<close>

definition spread_patch :: "User \<Rightarrow> Patch \<Rightarrow> User" where
  "spread_patch existing patch =
     existing\<lparr>username := (case patch_username patch of Some v \<Rightarrow> v | None \<Rightarrow> username existing),
              password := (case patch_password patch of Some v \<Rightarrow> v | None \<Rightarrow> password existing)\<rparr>"

section \<open>The JavaScript Map\<close>

text \<open>
  A JavaScript \<open>Map\<close> keeps its entries in insertion order: \<open>set\<close> on a key that is present
  replaces the value where the entry stands, \<open>set\<close> on a new key appends, \<open>delete\<close> removes
  the entry and tells whether there was one, \<open>values()\<close> iterates in that order. It is an
  association list whose keys are distinct.
\<close>

type_synonym ('k, 'v) Map = "('k \<times> 'v) list"

definition Map_get :: "('k, 'v) Map \<Rightarrow> 'k \<Rightarrow> 'v option" where
  "Map_get m k = map_of m k"

definition Map_has :: "('k, 'v) Map \<Rightarrow> 'k \<Rightarrow> bool" where
  "Map_has m k = (k \<in> set (map fst m))"

primrec Map_set :: "('k, 'v) Map \<Rightarrow> 'k \<Rightarrow> 'v \<Rightarrow> ('k, 'v) Map" where
  "Map_set [] k v = [(k, v)]"
| "Map_set (e # m) k v = (if fst e = k then (k, v) # m else e # Map_set m k v)"

definition Map_delete :: "('k, 'v) Map \<Rightarrow> 'k \<Rightarrow> bool \<times> ('k, 'v) Map" where
  "Map_delete m k = (Map_has m k, filter (\<lambda>e. fst e \<noteq> k) m)"

definition Map_values :: "('k, 'v) Map \<Rightarrow> 'v list" where
  "Map_values m = map snd m"

text \<open>\<open>new Map(entries)\<close> sets the entries one after the other, from the first to the last.\<close>

definition Map_new :: "('k \<times> 'v) list \<Rightarrow> ('k, 'v) Map" where
  "Map_new entries = foldl (\<lambda>m e. Map_set m (fst e) (snd e)) [] entries"

section \<open>MemStorage\<close>

text \<open>
  Both classes hold the private field \<open>users\<close>; \<open>FileStorage\<close> adds \<open>filePath\<close>. The value
  that \<open>randomUUID()\<close> returns inside \<open>createUser\<close> is the argument \<open>rid\<close> of the model: the
  generator belongs to the platform, and the code uses its result unchecked.
\<close>

record MemStorage =
  users :: "(string, User) Map"

record FileStorage = MemStorage +
  filePath :: string

definition MemStorage_new :: MemStorage where
  "MemStorage_new = \<lparr>users = Map_new []\<rparr>"

definition MemStorage_getUser :: "string \<Rightarrow> MemStorage \<Rightarrow> User option" where
  "MemStorage_getUser i this = Map_get (users this) i"

definition MemStorage_getUserByUsername :: "string \<Rightarrow> MemStorage \<Rightarrow> User option" where
  "MemStorage_getUserByUsername name this =
     find (\<lambda>user. username user = name) (Map_values (users this))"

definition MemStorage_createUser ::
  "string \<Rightarrow> InsertUser \<Rightarrow> MemStorage \<Rightarrow> User \<times> MemStorage" where
  "MemStorage_createUser rid insertUser this =
     (let user = spread_id insertUser rid
      in (user, this\<lparr>users := Map_set (users this) rid user\<rparr>))"

definition MemStorage_updateUser ::
  "string \<Rightarrow> Patch \<Rightarrow> MemStorage \<Rightarrow> User option \<times> MemStorage" where
  "MemStorage_updateUser i patch this =
     (case Map_get (users this) i of
        None \<Rightarrow> (None, this)
      | Some existing \<Rightarrow>
          (let updated = spread_patch existing patch
           in (Some updated, this\<lparr>users := Map_set (users this) i updated\<rparr>)))"

definition MemStorage_deleteUser :: "string \<Rightarrow> MemStorage \<Rightarrow> bool \<times> MemStorage" where
  "MemStorage_deleteUser i this =
     (case Map_delete (users this) i of (removed, m) \<Rightarrow> (removed, this\<lparr>users := m\<rparr>))"

definition MemStorage_listUsers :: "MemStorage \<Rightarrow> User list" where
  "MemStorage_listUsers this = Map_values (users this)"

section \<open>The platform: file system, JSON, paths\<close>

text \<open>
  A rejected promise or a thrown exception is a value of \<open>error\<close>. An error of the file
  system carries its \<open>code\<close>; the errors of \<open>JSON.parse\<close> and of \<open>arr.map\<close> carry none.
\<close>

datatype error = ErrnoException string | SyntaxError | TypeError

text \<open>
  The file system is the files with their contents and, for each kind of call, the
  fault with which the next call of that kind is rejected, if any: which calls fail is
  decided outside the program. \<open>readFile\<close> of a path that has no file is rejected with
  \<open>ENOENT\<close>. \<open>mkdir\<close> with \<open>recursive: true\<close> accepts a directory that exists; directories
  are not recorded, so a call that is not rejected changes nothing. A rejected
  \<open>writeFile\<close> leaves the files as they were.
\<close>

record fs =
  files :: "string \<rightharpoonup> string"
  read_fault :: "string option"
  mkdir_fault :: "string option"
  write_fault :: "string option"

definition readFile :: "fs \<Rightarrow> string \<Rightarrow> error + string" where
  "readFile w p =
     (case files w p of
        None \<Rightarrow> Inl (ErrnoException ''ENOENT'')
      | Some raw \<Rightarrow>
          (case read_fault w of Some c \<Rightarrow> Inl (ErrnoException c) | None \<Rightarrow> Inr raw))"

definition mkdir :: "fs \<Rightarrow> string \<Rightarrow> error + fs" where
  "mkdir w dir = (case mkdir_fault w of Some c \<Rightarrow> Inl (ErrnoException c) | None \<Rightarrow> Inr w)"

definition writeFile :: "fs \<Rightarrow> string \<Rightarrow> string \<Rightarrow> error + fs" where
  "writeFile w p content =
     (case write_fault w of
        Some c \<Rightarrow> Inl (ErrnoException c)
      | None \<Rightarrow> Inr (w\<lparr>files := (files w)(p \<mapsto> content)\<rparr>))"

text \<open>
  The functions of the platform that the class calls are parameters of the model:
  \<open>JSON_stringify arr\<close> is \<open>JSON.stringify(arr, null, 2)\<close>; \<open>JSON_parse raw\<close> is
  \<open>JSON.parse(raw) as User[]\<close>, an error when the text is not JSON (\<open>SyntaxError\<close>) or when
  the parsed value has no \<open>map\<close> (\<open>TypeError\<close>, thrown one line later inside the same \<open>try\<close>);
  \<open>dirname\<close> is \<open>path.dirname\<close>; \<open>default_path\<close> is
  \<open>path.join(process.cwd(), "server", "data", "users.json")\<close>.
\<close>

record env =
  JSON_stringify :: "User list \<Rightarrow> string"
  JSON_parse :: "string \<Rightarrow> error + User list"
  dirname :: "string \<Rightarrow> string"
  default_path :: string

section \<open>FileStorage\<close>

text \<open>
  A method of \<open>FileStorage\<close> takes the object and the file system and returns its result,
  or the error it rejects with, together with the object and the file system as it
  leaves them. The promise \<open>ready\<close> is settled before the first call. The functions of
  this section run \<open>persist\<close>, and with it a call, from the entry to the return with no
  other call in between: they are the program for calls that do not overlap. In the
  program \<open>persist\<close> fixes \<open>arr\<close> (line 91) and is then suspended at \<open>await fs.mkdir\<close> and at
  \<open>await fs.writeFile\<close>, where other calls can run; the section on overlapping calls
  below splits a call at these two points.
\<close>

type_synonym store = "FileStorage \<times> fs"

definition persist :: "env \<Rightarrow> store \<Rightarrow> (error + unit) \<times> store" where
  "persist e st =
     (case st of (this, w) \<Rightarrow>
        (let arr = Map_values (users this);
             dir = dirname e (filePath this)
         in case mkdir w dir of
              Inl err \<Rightarrow> (Inl err, (this, w))
            | Inr w1 \<Rightarrow>
                (case writeFile w1 (filePath this) (JSON_stringify e arr) of
                   Inl err \<Rightarrow> (Inl err, (this, w1))
                 | Inr w2 \<Rightarrow> (Inr (), (this, w2)))))"

definition load :: "env \<Rightarrow> store \<Rightarrow> (error + unit) \<times> store" where
  "load e st =
     (case st of (this, w) \<Rightarrow>
        (case (case readFile w (filePath this) of
                 Inl err \<Rightarrow> Inl err
               | Inr raw \<Rightarrow> JSON_parse e raw) of
           Inr arr \<Rightarrow>
             (Inr (), (this\<lparr>users := Map_new (map (\<lambda>u. (user_id u, u)) arr)\<rparr>, w))
         | Inl err \<Rightarrow>
             (if err = ErrnoException ''ENOENT'' then
                (case persist e (this, w) of
                   (Inl err', st') \<Rightarrow> (Inl err', st')
                 | (Inr u, (this', w')) \<Rightarrow> (Inr (), (this'\<lparr>users := Map_new []\<rparr>, w')))
              else (Inl err, (this, w)))))"

text \<open>
  The constructor: \<open>file || default\<close> takes the default for a missing and for an empty
  argument. An error of \<open>load\<close> is caught and logged, and the store goes on with the
  collection as \<open>load\<close> left it; the first component of the result is the logged error.
\<close>

definition resolve_path :: "env \<Rightarrow> string option \<Rightarrow> string" where
  "resolve_path e file =
     (case file of None \<Rightarrow> default_path e | Some f \<Rightarrow> if f = [] then default_path e else f)"

definition FileStorage_new :: "env \<Rightarrow> string option \<Rightarrow> fs \<Rightarrow> error option \<times> store" where
  "FileStorage_new e file w =
     (case load e (\<lparr>users = Map_new [], filePath = resolve_path e file\<rparr>, w) of
        (Inl err, st) \<Rightarrow> (Some err, st)
      | (Inr u, st) \<Rightarrow> (None, st))"

definition FileStorage_getUser :: "string \<Rightarrow> store \<Rightarrow> User option" where
  "FileStorage_getUser i st = Map_get (users (fst st)) i"

definition FileStorage_getUserByUsername :: "string \<Rightarrow> store \<Rightarrow> User option" where
  "FileStorage_getUserByUsername name st =
     find (\<lambda>u. username u = name) (Map_values (users (fst st)))"

definition FileStorage_createUser ::
  "env \<Rightarrow> string \<Rightarrow> InsertUser \<Rightarrow> store \<Rightarrow> (error + User) \<times> store" where
  "FileStorage_createUser e rid insertUser st =
     (case st of (this, w) \<Rightarrow>
        (let user = spread_id insertUser rid
         in case persist e (this\<lparr>users := Map_set (users this) rid user\<rparr>, w) of
              (Inl err, st') \<Rightarrow> (Inl err, st')
            | (Inr u, st') \<Rightarrow> (Inr user, st')))"

definition FileStorage_updateUser ::
  "env \<Rightarrow> string \<Rightarrow> Patch \<Rightarrow> store \<Rightarrow> (error + User option) \<times> store" where
  "FileStorage_updateUser e i patch st =
     (case st of (this, w) \<Rightarrow>
        (case Map_get (users this) i of
           None \<Rightarrow> (Inr None, (this, w))
         | Some existing \<Rightarrow>
             (let updated = spread_patch existing patch
              in case persist e (this\<lparr>users := Map_set (users this) i updated\<rparr>, w) of
                   (Inl err, st') \<Rightarrow> (Inl err, st')
                 | (Inr u, st') \<Rightarrow> (Inr (Some updated), st'))))"

definition FileStorage_deleteUser ::
  "env \<Rightarrow> string \<Rightarrow> store \<Rightarrow> (error + bool) \<times> store" where
  "FileStorage_deleteUser e i st =
     (case st of (this, w) \<Rightarrow>
        (case Map_delete (users this) i of (removed, m) \<Rightarrow>
           (if removed then
              (case persist e (this\<lparr>users := m\<rparr>, w) of
                 (Inl err, st') \<Rightarrow> (Inl err, st')
               | (Inr u, st') \<Rightarrow> (Inr removed, st'))
            else (Inr removed, (this\<lparr>users := m\<rparr>, w)))))"

definition FileStorage_listUsers :: "store \<Rightarrow> User list" where
  "FileStorage_listUsers st = Map_values (users (fst st))"

section \<open>Notions of the specification\<close>

text \<open>Every key of the collection is the id of the record stored under it.\<close>

definition keys_are_ids :: "(string, User) Map \<Rightarrow> bool" where
  "keys_are_ids m = list_all (\<lambda>en. user_id (snd en) = fst en) m"

text \<open>The code with which \<open>persist\<close> is rejected on this file system, if it is: \<open>mkdir\<close> is
  called first, \<open>writeFile\<close> only after \<open>mkdir\<close> went through.\<close>

definition snapshot_fault :: "fs \<Rightarrow> string option" where
  "snapshot_fault w = (case mkdir_fault w of Some c \<Rightarrow> Some c | None \<Rightarrow> write_fault w)"

text \<open>The snapshot file holds the serialization of the collection in memory.\<close>

definition in_sync :: "env \<Rightarrow> store \<Rightarrow> bool" where
  "in_sync e st =
     (files (snd st) (filePath (fst st)) = Some (JSON_stringify e (Map_values (users (fst st)))))"

text \<open>The collection of a Durable Store, seen as a Volatile Store.\<close>

definition memory_of :: "store \<Rightarrow> MemStorage" where
  "memory_of st = \<lparr>users = users (fst st)\<rparr>"

text \<open>
  The six operations of the interface \<open>IStorage\<close> as values, to run a sequence of calls
  against either class. A \<open>CreateUser\<close> carries the identifier that \<open>randomUUID()\<close> returns
  in that call.
\<close>

datatype call =
  GetUser string
  | GetUserByUsername string
  | CreateUser string InsertUser
  | UpdateUser string Patch
  | DeleteUser string
  | ListUsers

datatype reply = Found "User option" | Created User | Updated "User option" | Deleted bool
  | Listed "User list"

fun MemStorage_call :: "call \<Rightarrow> MemStorage \<Rightarrow> reply \<times> MemStorage" where
  "MemStorage_call (GetUser i) this = (Found (MemStorage_getUser i this), this)"
| "MemStorage_call (GetUserByUsername name) this =
     (Found (MemStorage_getUserByUsername name this), this)"
| "MemStorage_call (CreateUser rid insertUser) this =
     (case MemStorage_createUser rid insertUser this of (u, this') \<Rightarrow> (Created u, this'))"
| "MemStorage_call (UpdateUser i patch) this =
     (case MemStorage_updateUser i patch this of (r, this') \<Rightarrow> (Updated r, this'))"
| "MemStorage_call (DeleteUser i) this =
     (case MemStorage_deleteUser i this of (b, this') \<Rightarrow> (Deleted b, this'))"
| "MemStorage_call ListUsers this = (Listed (MemStorage_listUsers this), this)"

fun FileStorage_call :: "env \<Rightarrow> call \<Rightarrow> store \<Rightarrow> (error + reply) \<times> store" where
  "FileStorage_call e (GetUser i) st = (Inr (Found (FileStorage_getUser i st)), st)"
| "FileStorage_call e (GetUserByUsername name) st =
     (Inr (Found (FileStorage_getUserByUsername name st)), st)"
| "FileStorage_call e (CreateUser rid insertUser) st =
     (case FileStorage_createUser e rid insertUser st of
        (Inl err, st') \<Rightarrow> (Inl err, st')
      | (Inr u, st') \<Rightarrow> (Inr (Created u), st'))"
| "FileStorage_call e (UpdateUser i patch) st =
     (case FileStorage_updateUser e i patch st of
        (Inl err, st') \<Rightarrow> (Inl err, st')
      | (Inr r, st') \<Rightarrow> (Inr (Updated r), st'))"
| "FileStorage_call e (DeleteUser i) st =
     (case FileStorage_deleteUser e i st of
        (Inl err, st') \<Rightarrow> (Inl err, st')
      | (Inr b, st') \<Rightarrow> (Inr (Deleted b), st'))"
| "FileStorage_call e ListUsers st = (Inr (Listed (FileStorage_listUsers st)), st)"

fun MemStorage_run :: "call list \<Rightarrow> MemStorage \<Rightarrow> reply list \<times> MemStorage" where
  "MemStorage_run [] this = ([], this)"
| "MemStorage_run (c # cs) this =
     (case MemStorage_call c this of (r, this') \<Rightarrow>
        (case MemStorage_run cs this' of (rs, this'') \<Rightarrow> (r # rs, this'')))"

fun FileStorage_run :: "env \<Rightarrow> call list \<Rightarrow> store \<Rightarrow> (error + reply) list \<times> store" where
  "FileStorage_run e [] st = ([], st)"
| "FileStorage_run e (c # cs) st =
     (case FileStorage_call e c st of (r, st') \<Rightarrow>
        (case FileStorage_run e cs st' of (rs, st'') \<Rightarrow> (r # rs, st'')))"




section \<open>Calls that overlap\<close>

text \<open>
  Nothing in the class keeps a call from running while another one is suspended. A
  call in progress has returned, or is suspended at one of the two awaits of \<open>persist\<close>,
  holding the array \<open>arr\<close> that \<open>persist\<close> has fixed and the result that the call returns
  once \<open>persist\<close> is through. \<open>FileStorage_enter\<close> is the part of a call that runs without
  suspension, from readiness to the first await of \<open>persist\<close> or to the return.
  \<open>FileStorage_resume\<close> takes a suspended call over the completion of the file system
  call it awaits, to the next await or to the return; the effect of the file system
  call is taken at that moment, \<open>writeFile\<close> being one step. A schedule is a sequence
  of actions: a new call enters, or the call with a given number (in the order of
  entry, from 0) is resumed.
\<close>

datatype progress =
  Returned "error + reply"
  | Awaiting_mkdir "User list" reply
  | Awaiting_writeFile "User list" reply

fun FileStorage_enter :: "call \<Rightarrow> store \<Rightarrow> progress \<times> store" where
  "FileStorage_enter (GetUser i) st = (Returned (Inr (Found (FileStorage_getUser i st))), st)"
| "FileStorage_enter (GetUserByUsername name) st =
     (Returned (Inr (Found (FileStorage_getUserByUsername name st))), st)"
| "FileStorage_enter (CreateUser rid insertUser) st =
     (case st of (this, w) \<Rightarrow>
        (let user = spread_id insertUser rid;
             this' = this\<lparr>users := Map_set (users this) rid user\<rparr>
         in (Awaiting_mkdir (Map_values (users this')) (Created user), (this', w))))"
| "FileStorage_enter (UpdateUser i patch) st =
     (case st of (this, w) \<Rightarrow>
        (case Map_get (users this) i of
           None \<Rightarrow> (Returned (Inr (Updated None)), (this, w))
         | Some existing \<Rightarrow>
             (let updated = spread_patch existing patch;
                  this' = this\<lparr>users := Map_set (users this) i updated\<rparr>
              in (Awaiting_mkdir (Map_values (users this')) (Updated (Some updated)),
                  (this', w)))))"
| "FileStorage_enter (DeleteUser i) st =
     (case st of (this, w) \<Rightarrow>
        (case Map_delete (users this) i of (removed, m) \<Rightarrow>
           (if removed then
              (Awaiting_mkdir (Map_values m) (Deleted removed), (this\<lparr>users := m\<rparr>, w))
            else (Returned (Inr (Deleted removed)), (this\<lparr>users := m\<rparr>, w)))))"
| "FileStorage_enter ListUsers st = (Returned (Inr (Listed (FileStorage_listUsers st))), st)"

fun FileStorage_resume :: "env \<Rightarrow> progress \<Rightarrow> store \<Rightarrow> progress \<times> store" where
  "FileStorage_resume e (Returned x) st = (Returned x, st)"
| "FileStorage_resume e (Awaiting_mkdir arr r) st =
     (case st of (this, w) \<Rightarrow>
        (case mkdir w (dirname e (filePath this)) of
           Inl err \<Rightarrow> (Returned (Inl err), (this, w))
         | Inr w1 \<Rightarrow> (Awaiting_writeFile arr r, (this, w1))))"
| "FileStorage_resume e (Awaiting_writeFile arr r) st =
     (case st of (this, w) \<Rightarrow>
        (case writeFile w (filePath this) (JSON_stringify e arr) of
           Inl err \<Rightarrow> (Returned (Inl err), (this, w))
         | Inr w2 \<Rightarrow> (Returned (Inr r), (this, w2))))"

datatype action = Enter call | Resume nat

fun FileStorage_act :: "env \<Rightarrow> action \<Rightarrow> progress list \<times> store \<Rightarrow> progress list \<times> store" where
  "FileStorage_act e (Enter c) (ps, st) =
     (case FileStorage_enter c st of (p, st') \<Rightarrow> (ps @ [p], st'))"
| "FileStorage_act e (Resume k) (ps, st) =
     (if k < length ps then
        (case FileStorage_resume e (ps ! k) st of (p, st') \<Rightarrow> (ps[k := p], st'))
      else (ps, st))"

fun FileStorage_schedule ::
  "env \<Rightarrow> action list \<Rightarrow> progress list \<times> store \<Rightarrow> progress list \<times> store" where
  "FileStorage_schedule e [] s = s"
| "FileStorage_schedule e (a # as) s = FileStorage_schedule e as (FileStorage_act e a s)"

text \<open>A call that runs alone: it enters and is resumed twice, no other action in between.\<close>

definition alone :: "call \<Rightarrow> action list" where
  "alone c = [Enter c, Resume 0, Resume 0]"

section \<open>An instance of the platform for closed examples\<close>

text \<open>
  Every theorem below holds for every \<open>env\<close>. To evaluate the model on concrete inputs
  the parameters are instantiated with a small codec for the texts of the examples:
  \<open>example_stringify\<close> prints an array of records as \<open>JSON.stringify(arr, null, 2)\<close>
  does for strings of printable ASCII characters (keys in the order \<open>createUser\<close> builds
  them), and \<open>example_parse\<close> reads an array of objects whose members are strings; an
  object that lacks one of the three fields is no \<open>User\<close> and is refused. They stand for
  the platform in examples only; no statement about the program rests on them.
\<close>

definition nl :: string where
  "nl = [CHR 0x0A]"

definition escape :: "char \<Rightarrow> string" where
  "escape c =
     (if c = CHR 0x22 then [CHR 0x5C, CHR 0x22]
      else if c = CHR 0x5C then [CHR 0x5C, CHR 0x5C]
      else if c = CHR 0x0A then [CHR 0x5C, CHR ''n'']
      else [c])"

definition quote :: "string \<Rightarrow> string" where
  "quote s = [CHR 0x22] @ concat (map escape s) @ [CHR 0x22]"

definition member_text :: "string \<Rightarrow> string \<Rightarrow> string" where
  "member_text k v = ''    '' @ quote k @ '': '' @ quote v"

definition object_text :: "User \<Rightarrow> string" where
  "object_text u =
     ''  {'' @ nl @ member_text ''username'' (username u) @ '','' @ nl
       @ member_text ''password'' (password u) @ '','' @ nl
       @ member_text ''id'' (user_id u) @ nl @ ''  }''"

fun join :: "string \<Rightarrow> string list \<Rightarrow> string" where
  "join sep [] = []"
| "join sep [x] = x"
| "join sep (x # y # ys) = x @ sep @ join sep (y # ys)"

definition example_stringify :: "User list \<Rightarrow> string" where
  "example_stringify arr =
     (if arr = [] then ''[]''
      else ''['' @ nl @ join ('','' @ nl) (map object_text arr) @ nl @ '']'')"

datatype token = LBracket | RBracket | LBrace | RBrace | Colon | Comma | Str string

datatype lexing = Outside | Inside string | Escaped string

definition punctuation :: "char \<Rightarrow> token option" where
  "punctuation c =
     (if c = CHR ''['' then Some LBracket else if c = CHR '']'' then Some RBracket
      else if c = CHR ''{'' then Some LBrace else if c = CHR ''}'' then Some RBrace
      else if c = CHR '':'' then Some Colon else if c = CHR '','' then Some Comma
      else None)"

definition unescape :: "char \<Rightarrow> char option" where
  "unescape c =
     (if c = CHR 0x22 then Some (CHR 0x22) else if c = CHR 0x5C then Some (CHR 0x5C)
      else if c = CHR ''/'' then Some (CHR ''/'') else if c = CHR ''n'' then Some (CHR 0x0A)
      else if c = CHR ''r'' then Some (CHR 0x0D) else if c = CHR ''t'' then Some (CHR 0x09)
      else None)"

fun tokens :: "lexing \<Rightarrow> string \<Rightarrow> token list option" where
  "tokens Outside [] = Some []"
| "tokens (Inside s) [] = None"
| "tokens (Escaped s) [] = None"
| "tokens Outside (c # cs) =
     (if c = CHR '' '' \<or> c = CHR 0x0A \<or> c = CHR 0x0D \<or> c = CHR 0x09 then tokens Outside cs
      else if c = CHR 0x22 then tokens (Inside []) cs
      else (case punctuation c of
              None \<Rightarrow> None
            | Some t \<Rightarrow> map_option ((#) t) (tokens Outside cs)))"
| "tokens (Inside s) (c # cs) =
     (if c = CHR 0x22 then map_option ((#) (Str s)) (tokens Outside cs)
      else if c = CHR 0x5C then tokens (Escaped s) cs
      else tokens (Inside (s @ [c])) cs)"
| "tokens (Escaped s) (c # cs) =
     (case unescape c of None \<Rightarrow> None | Some d \<Rightarrow> tokens (Inside (s @ [d])) cs)"

datatype place =
  Top | Open_array | After_element | After_array_comma | Open_object | After_key string
  | After_colon string | After_member | After_object_comma | Closed

type_synonym members = "(string \<times> string) list"

definition step ::
  "place \<times> members \<times> members list \<Rightarrow> token \<Rightarrow> (place \<times> members \<times> members list) option" where
  "step s t =
     (case s of (p, ms, os) \<Rightarrow>
        (case (p, t) of
           (Top, LBracket) \<Rightarrow> Some (Open_array, ms, os)
         | (Open_array, RBracket) \<Rightarrow> Some (Closed, ms, os)
         | (Open_array, LBrace) \<Rightarrow> Some (Open_object, [], os)
         | (After_array_comma, LBrace) \<Rightarrow> Some (Open_object, [], os)
         | (Open_object, RBrace) \<Rightarrow> Some (After_element, [], os @ [ms])
         | (Open_object, Str k) \<Rightarrow> Some (After_key k, ms, os)
         | (After_object_comma, Str k) \<Rightarrow> Some (After_key k, ms, os)
         | (After_key k, Colon) \<Rightarrow> Some (After_colon k, ms, os)
         | (After_colon k, Str v) \<Rightarrow> Some (After_member, ms @ [(k, v)], os)
         | (After_member, Comma) \<Rightarrow> Some (After_object_comma, ms, os)
         | (After_member, RBrace) \<Rightarrow> Some (After_element, [], os @ [ms])
         | (After_element, Comma) \<Rightarrow> Some (After_array_comma, ms, os)
         | (After_element, RBracket) \<Rightarrow> Some (Closed, ms, os)
         | _ \<Rightarrow> None))"

fun steps :: "place \<times> members \<times> members list \<Rightarrow> token list \<Rightarrow> members list option" where
  "steps s [] = (case s of (Closed, ms, os) \<Rightarrow> Some os | _ \<Rightarrow> None)"
| "steps s (t # ts) = (case step s t of None \<Rightarrow> None | Some s' \<Rightarrow> steps s' ts)"

text \<open>Of two members with the same key the later one counts, as in \<open>JSON.parse\<close>.\<close>

definition user_of :: "members \<Rightarrow> User option" where
  "user_of ms =
     (case (map_of (rev ms) ''username'', map_of (rev ms) ''password'', map_of (rev ms) ''id'') of
        (Some n, Some p, Some i) \<Rightarrow> Some \<lparr>username = n, password = p, user_id = i\<rparr>
      | _ \<Rightarrow> None)"

fun users_of :: "members list \<Rightarrow> User list option" where
  "users_of [] = Some []"
| "users_of (ms # os) =
     (case user_of ms of
        None \<Rightarrow> None
      | Some u \<Rightarrow> (case users_of os of None \<Rightarrow> None | Some us \<Rightarrow> Some (u # us)))"

definition example_parse :: "string \<Rightarrow> error + User list" where
  "example_parse raw =
     (case tokens Outside raw of
        None \<Rightarrow> Inl SyntaxError
      | Some ts \<Rightarrow>
          (case steps (Top, [], []) ts of
             None \<Rightarrow> Inl SyntaxError
           | Some os \<Rightarrow> (case users_of os of None \<Rightarrow> Inl TypeError | Some us \<Rightarrow> Inr us)))"

definition example_dirname :: "string \<Rightarrow> string" where
  "example_dirname p =
     (if CHR ''/'' \<in> set p then rev (tl (dropWhile (\<lambda>c. c \<noteq> CHR ''/'') (rev p))) else ''.'')"

definition example_env :: env where
  "example_env =
     \<lparr>JSON_stringify = example_stringify, JSON_parse = example_parse,
      dirname = example_dirname, default_path = ''server/data/users.json''\<rparr>"

text \<open>Three records, the third with the id of the first; two fields; a patch.\<close>

definition alice :: User where
  "alice = \<lparr>username = ''alice'', password = ''h1'', user_id = ''a1''\<rparr>"

definition bob :: User where
  "bob = \<lparr>username = ''bob'', password = ''h2'', user_id = ''b2''\<rparr>"

definition alice_again :: User where
  "alice_again = \<lparr>username = ''alice'', password = ''h3'', user_id = ''a1''\<rparr>"

definition bob_fields :: InsertUser where
  "bob_fields = \<lparr>username = ''bob'', password = ''h2''\<rparr>"

definition new_secret :: Patch where
  "new_secret = \<lparr>patch_username = None, patch_password = Some ''h9''\<rparr>"

text \<open>
  File systems: one without files, one without files that rejects every write, one
  whose \<open>data/users.json\<close> holds the two records with the same id, one where it holds
  \<open>alice\<close> alone, that one with writes rejected, and that one with reads rejected.
\<close>

definition no_files :: "string \<rightharpoonup> string" where
  "no_files = Map.empty"

definition fresh_disk :: fs where
  "fresh_disk = \<lparr>files = no_files, read_fault = None, mkdir_fault = None, write_fault = None\<rparr>"


definition duplicate_disk :: fs where
  "duplicate_disk =
     fresh_disk\<lparr>files := no_files(''data/users.json'' \<mapsto> example_stringify [alice, alice_again])\<rparr>"

definition alice_disk :: fs where
  "alice_disk = fresh_disk\<lparr>files := no_files(''data/users.json'' \<mapsto> example_stringify [alice])\<rparr>"

definition alice_store :: store where
  "alice_store = snd (FileStorage_new example_env (Some ''data/users.json'') alice_disk)"

definition alice_store_readonly :: store where
  "alice_store_readonly = (fst alice_store, (snd alice_store)\<lparr>write_fault := Some ''EACCES''\<rparr>)"

definition alice_mem :: MemStorage where
  "alice_mem = \<lparr>users = [(''a1'', alice)]\<rparr>"

definition duplicate_store :: store where
  "duplicate_store = snd (FileStorage_new example_env (Some ''data/users.json'') duplicate_disk)"


definition unreadable_disk :: fs where
  "unreadable_disk = alice_disk\<lparr>read_fault := Some ''EACCES''\<rparr>"

definition two_store :: store where
  "two_store =
     (\<lparr>users = [(''a1'', alice), (''b2'', bob)], filePath = ''data/users.json''\<rparr>, fresh_disk)"

text \<open>A sequence of calls that uses each of the six operations.\<close>

definition alice_fields :: InsertUser where
  "alice_fields = \<lparr>username = ''alice'', password = ''h1''\<rparr>"

definition example_calls :: "call list" where
  "example_calls =
     [CreateUser ''a1'' alice_fields, CreateUser ''b2'' bob_fields, UpdateUser ''a1'' new_secret,
      GetUser ''a1'', GetUserByUsername ''bob'', DeleteUser ''b2'', DeleteUser ''b2'', ListUsers]"

text \<open>
  The store constructed over a path without a file, and a schedule in which two
  \<open>createUser\<close> calls overlap: both enter, the second one is resumed to its return, then
  the first one.
\<close>

definition fresh_store :: store where
  "fresh_store = snd (FileStorage_new example_env (Some ''data/users.json'') fresh_disk)"

definition overlap :: "action list" where
  "overlap =
     [Enter (CreateUser ''a1'' alice_fields), Enter (CreateUser ''b2'' bob_fields),
      Resume 1, Resume 1, Resume 0, Resume 0]"


section \<open>Properties of the Map and of the operations\<close>

lemma Map_get_set: "Map_get (Map_set m k v) k' = (if k' = k then Some v else Map_get m k')"
  by (induction m) (auto simp: Map_get_def)

lemma keys_Map_set:
  "map fst (Map_set m k v) = (if Map_has m k then map fst m else map fst m @ [k])"
  by (induction m) (auto simp: Map_has_def)

lemma distinct_Map_set: "distinct (map fst m) \<Longrightarrow> distinct (map fst (Map_set m k v))"
  by (simp add: keys_Map_set Map_has_def)

lemma Map_set_fresh: "\<not> Map_has m k \<Longrightarrow> Map_set m k v = m @ [(k, v)]"
  by (induction m) (auto simp: Map_has_def)

lemma Map_has_get: "Map_has m k \<longleftrightarrow> Map_get m k \<noteq> None"
  by (induction m) (auto simp: Map_has_def Map_get_def)

lemma length_Map_set_present: "Map_has m k \<Longrightarrow> length (Map_set m k v) = length m"
  by (induction m) (auto simp: Map_has_def)

lemma Map_delete_absent: "\<not> Map_has m k \<Longrightarrow> Map_delete m k = (False, m)"
  by (induction m) (auto simp: Map_has_def Map_delete_def)

lemma Map_get_delete:
  "Map_get (snd (Map_delete m k)) k' = (if k' = k then None else Map_get m k')"
  by (induction m) (auto simp: Map_delete_def Map_get_def)

lemma Map_has_delete: "\<not> Map_has (snd (Map_delete m k)) k"
  by (simp add: Map_has_get Map_get_delete)

lemma distinct_Map_delete: "distinct (map fst m) \<Longrightarrow> distinct (map fst (snd (Map_delete m k)))"
  by (simp add: Map_delete_def distinct_map_filter)

lemma keys_are_ids_set:
  "keys_are_ids m \<Longrightarrow> user_id u = k \<Longrightarrow> keys_are_ids (Map_set m k u)"
  by (induction m) (auto simp: keys_are_ids_def)

lemma keys_are_ids_delete: "keys_are_ids m \<Longrightarrow> keys_are_ids (snd (Map_delete m k))"
  by (induction m) (auto simp: keys_are_ids_def Map_delete_def)

lemma keys_are_ids_get: "keys_are_ids m \<Longrightarrow> Map_get m k = Some u \<Longrightarrow> user_id u = k"
  by (induction m) (auto simp: keys_are_ids_def Map_get_def split: if_splits)

lemma foldl_Map_set_get:
  "Map_get (foldl (\<lambda>m e. Map_set m (fst e) (snd e)) m0 es) k =
     (case map_of (rev es) k of None \<Rightarrow> Map_get m0 k | Some v \<Rightarrow> Some v)"
  by (induction es arbitrary: m0) (auto simp: Map_get_set map_add_def split: option.splits)

lemma Map_get_new: "Map_get (Map_new es) k = map_of (rev es) k"
  unfolding Map_new_def foldl_Map_set_get by (simp add: Map_get_def split: option.splits)

lemma foldl_Map_set_distinct:
  "distinct (map fst m0) \<Longrightarrow> distinct (map fst (foldl (\<lambda>m e. Map_set m (fst e) (snd e)) m0 es))"
  by (induction es arbitrary: m0) (auto simp: distinct_Map_set)

lemma distinct_Map_new: "distinct (map fst (Map_new es))"
  by (simp add: Map_new_def foldl_Map_set_distinct)

lemma foldl_Map_set_ids:
  "keys_are_ids m0 \<Longrightarrow>
   keys_are_ids (foldl (\<lambda>m e. Map_set m (fst e) (snd e)) m0 (map (\<lambda>u. (user_id u, u)) arr))"
  by (induction arr arbitrary: m0) (auto simp: keys_are_ids_set)

lemma keys_are_ids_new: "keys_are_ids (Map_new (map (\<lambda>u. (user_id u, u)) arr))"
proof -
  have "keys_are_ids []" by (simp add: keys_are_ids_def)
  then show ?thesis unfolding Map_new_def by (rule foldl_Map_set_ids)
qed

lemma foldl_Map_set_append:
  "distinct (map fst (m0 @ es)) \<Longrightarrow> foldl (\<lambda>m e. Map_set m (fst e) (snd e)) m0 es = m0 @ es"
proof (induction es arbitrary: m0)
  case Nil
  then show ?case by simp
next
  case (Cons e es)
  have "\<not> Map_has m0 (fst e)" using Cons.prems by (auto simp: Map_has_def)
  then have "Map_set m0 (fst e) (snd e) = m0 @ [e]" by (simp add: Map_set_fresh)
  moreover have "distinct (map fst ((m0 @ [e]) @ es))" using Cons.prems by simp
  ultimately show ?case using Cons.IH [of "m0 @ [e]"] by simp
qed

lemma Map_new_distinct: "distinct (map fst es) \<Longrightarrow> Map_new es = es"
  using foldl_Map_set_append [of "[]" es] by (simp add: Map_new_def)

lemma rekey_values:
  "distinct (map fst m) \<Longrightarrow> keys_are_ids m \<Longrightarrow> map (\<lambda>u. (user_id u, u)) (Map_values m) = m"
  by (induction m) (auto simp: keys_are_ids_def Map_values_def)

lemma values_once:
  "distinct (map fst m) \<Longrightarrow> keys_are_ids m \<Longrightarrow>
   filter (\<lambda>v. user_id v = i) (Map_values m) = (case Map_get m i of None \<Rightarrow> [] | Some u \<Rightarrow> [u])"
proof (induction m)
  case Nil
  then show ?case by (simp add: Map_values_def Map_get_def)
next
  case (Cons e m)
  have "\<And>u. Map_get m (fst e) \<noteq> Some u"
    using Cons.prems(1) by (auto simp: Map_get_def dest: map_of_SomeD intro: rev_image_eqI)
  moreover have "user_id (snd e) = fst e" "keys_are_ids m" "distinct (map fst m)"
    using Cons.prems by (auto simp: keys_are_ids_def)
  ultimately show ?case
    using Cons.IH by (cases e) (auto simp: Map_values_def Map_get_def split: option.splits)
qed

lemma map_of_rev_last:
  "map_of (rev (map (\<lambda>u. (f u, u)) arr)) i =
     (if i \<in> f ` set arr then Some (last (filter (\<lambda>u. f u = i) arr)) else None)"
  by (induction arr) (auto simp: map_add_def filter_empty_conv split: option.splits)


lemma persist_ok:
  "snapshot_fault w = None \<Longrightarrow>
   persist e (this, w) =
     (Inr (), (this, w\<lparr>files := (files w)(filePath this \<mapsto> JSON_stringify e (Map_values (users this)))\<rparr>))"
  by (simp add: persist_def mkdir_def writeFile_def snapshot_fault_def split: option.splits)

lemma persist_fault:
  "snapshot_fault w = Some c \<Longrightarrow> persist e (this, w) = (Inl (ErrnoException c), (this, w))"
  by (simp add: persist_def mkdir_def writeFile_def snapshot_fault_def split: option.splits)

lemma snapshot_fault_files [simp]: "snapshot_fault (w\<lparr>files := f\<rparr>) = snapshot_fault w"
  by (simp add: snapshot_fault_def split: option.splits)

lemma createUser_ok:
  "snapshot_fault w = None \<Longrightarrow>
   FileStorage_createUser e rid ins (this, w) =
     (Inr (spread_id ins rid),
      (this\<lparr>users := Map_set (users this) rid (spread_id ins rid)\<rparr>,
       w\<lparr>files := (files w)(filePath this \<mapsto>
            JSON_stringify e (Map_values (Map_set (users this) rid (spread_id ins rid))))\<rparr>))"
  by (simp add: FileStorage_createUser_def persist_ok Let_def)

lemma createUser_fault:
  "snapshot_fault w = Some c \<Longrightarrow>
   FileStorage_createUser e rid ins (this, w) =
     (Inl (ErrnoException c), (this\<lparr>users := Map_set (users this) rid (spread_id ins rid)\<rparr>, w))"
  by (simp add: FileStorage_createUser_def persist_fault Let_def)

lemma updateUser_absent:
  "Map_get (users this) i = None \<Longrightarrow> FileStorage_updateUser e i patch (this, w) = (Inr None, (this, w))"
  by (simp add: FileStorage_updateUser_def)

lemma updateUser_ok:
  "Map_get (users this) i = Some ex \<Longrightarrow> snapshot_fault w = None \<Longrightarrow>
   FileStorage_updateUser e i patch (this, w) =
     (Inr (Some (spread_patch ex patch)),
      (this\<lparr>users := Map_set (users this) i (spread_patch ex patch)\<rparr>,
       w\<lparr>files := (files w)(filePath this \<mapsto>
            JSON_stringify e (Map_values (Map_set (users this) i (spread_patch ex patch))))\<rparr>))"
  by (simp add: FileStorage_updateUser_def persist_ok Let_def)

lemma updateUser_fault:
  "Map_get (users this) i = Some ex \<Longrightarrow> snapshot_fault w = Some c \<Longrightarrow>
   FileStorage_updateUser e i patch (this, w) =
     (Inl (ErrnoException c), (this\<lparr>users := Map_set (users this) i (spread_patch ex patch)\<rparr>, w))"
  by (simp add: FileStorage_updateUser_def persist_fault Let_def)

lemma deleteUser_absent:
  "\<not> Map_has (users this) i \<Longrightarrow> FileStorage_deleteUser e i (this, w) = (Inr False, (this, w))"
  by (simp add: FileStorage_deleteUser_def Map_delete_absent)

lemma deleteUser_ok:
  "Map_has (users this) i \<Longrightarrow> snapshot_fault w = None \<Longrightarrow>
   FileStorage_deleteUser e i (this, w) =
     (Inr True,
      (this\<lparr>users := snd (Map_delete (users this) i)\<rparr>,
       w\<lparr>files := (files w)(filePath this \<mapsto>
            JSON_stringify e (Map_values (snd (Map_delete (users this) i))))\<rparr>))"
  by (simp add: FileStorage_deleteUser_def persist_ok Map_delete_def)

lemma deleteUser_fault:
  "Map_has (users this) i \<Longrightarrow> snapshot_fault w = Some c \<Longrightarrow>
   FileStorage_deleteUser e i (this, w) =
     (Inl (ErrnoException c), (this\<lparr>users := snd (Map_delete (users this) i)\<rparr>, w))"
  by (simp add: FileStorage_deleteUser_def persist_fault Map_delete_def)

section \<open>The examples evaluated, and further properties of the operations\<close>

lemma example_parse_alice: "example_parse (example_stringify [alice]) = Inr [alice]"
  by (simp add: example_parse_def example_stringify_def alice_def object_text_def member_text_def
      quote_def escape_def nl_def punctuation_def unescape_def step_def user_of_def)

lemma example_parse_duplicate:
  "example_parse (example_stringify [alice, alice_again]) = Inr [alice, alice_again]"
  by (simp add: example_parse_def example_stringify_def alice_def alice_again_def object_text_def
      member_text_def quote_def escape_def nl_def punctuation_def unescape_def step_def user_of_def)

lemma example_stringify_nil: "example_stringify [] = ''[]''"
  by (simp add: example_stringify_def)

lemma alice_store_eq:
  "alice_store = (\<lparr>users = [(''a1'', alice)], filePath = ''data/users.json''\<rparr>, alice_disk)"
  by (simp add: alice_store_def FileStorage_new_def load_def readFile_def resolve_path_def
      example_env_def alice_disk_def fresh_disk_def no_files_def example_parse_alice Map_new_def)
    (simp add: alice_def)

lemma MemStorage_deleteUser_eq:
  "MemStorage_deleteUser i this = (Map_has (users this) i, this\<lparr>users := snd (Map_delete (users this) i)\<rparr>)"
  by (simp add: MemStorage_deleteUser_def Map_delete_def)

lemma FileStorage_deleteUser_users:
  "users (fst (snd (FileStorage_deleteUser e i (this, w)))) = snd (Map_delete (users this) i)"
  by (cases "snapshot_fault w"; cases "Map_has (users this) i")
     (simp_all add: deleteUser_absent deleteUser_ok deleteUser_fault Map_delete_absent)


lemma duplicate_store_eq:
  "duplicate_store =
     (\<lparr>users = [(''a1'', alice_again)], filePath = ''data/users.json''\<rparr>, duplicate_disk)"
  by (simp add: duplicate_store_def FileStorage_new_def load_def readFile_def resolve_path_def
      example_env_def duplicate_disk_def fresh_disk_def no_files_def example_parse_duplicate
      Map_new_def)
    (simp add: alice_def alice_again_def)


lemma spread_patch_fields:
  "user_id (spread_patch ex patch) = user_id ex"
  "username (spread_patch ex patch) = (case patch_username patch of Some v \<Rightarrow> v | None \<Rightarrow> username ex)"
  "password (spread_patch ex patch) = (case patch_password patch of Some v \<Rightarrow> v | None \<Rightarrow> password ex)"
  by (simp_all add: spread_patch_def)

lemma spread_id_fields:
  "user_id (spread_id ins rid) = rid"
  "username (spread_id ins rid) = username ins"
  "password (spread_id ins rid) = password ins"
  by (simp_all add: spread_id_def)

lemma MemStorage_updateUser_absent:
  "MemStorage_getUser i mem = None \<Longrightarrow> MemStorage_updateUser i patch mem = (None, mem)"
  by (simp add: MemStorage_updateUser_def MemStorage_getUser_def)

lemma MemStorage_updateUser_present:
  "MemStorage_getUser i mem = Some ex \<Longrightarrow>
   MemStorage_updateUser i patch mem =
     (Some (spread_patch ex patch), mem\<lparr>users := Map_set (users mem) i (spread_patch ex patch)\<rparr>)"
  by (simp add: MemStorage_updateUser_def MemStorage_getUser_def Let_def)

lemma MemStorage_createUser_eq:
  "MemStorage_createUser rid ins mem =
     (spread_id ins rid, mem\<lparr>users := Map_set (users mem) rid (spread_id ins rid)\<rparr>)"
  by (simp add: MemStorage_createUser_def Let_def)

lemma FileStorage_updateUser_users:
  "Map_get (users this) i = Some ex \<Longrightarrow>
   users (fst (snd (FileStorage_updateUser e i patch (this, w)))) =
     Map_set (users this) i (spread_patch ex patch)"
  by (cases "snapshot_fault w") (simp_all add: updateUser_ok updateUser_fault)

lemma FileStorage_createUser_users:
  "users (fst (snd (FileStorage_createUser e rid ins (this, w)))) =
     Map_set (users this) rid (spread_id ins rid)"
  by (cases "snapshot_fault w") (simp_all add: createUser_ok createUser_fault)

lemma keys_Map_set_present: "Map_get m k = Some v \<Longrightarrow> map fst (Map_set m k v') = map fst m"
  by (simp add: keys_Map_set Map_has_get)

lemma alice_store_readonly_eq:
  "alice_store_readonly =
     (\<lparr>users = [(''a1'', alice)], filePath = ''data/users.json''\<rparr>,
      alice_disk\<lparr>write_fault := Some ''EACCES''\<rparr>)"
  by (simp add: alice_store_readonly_def alice_store_eq)

lemma Map_new_nil: "Map_new [] = []"
  by (simp add: Map_new_def)

lemma load_not_found:
  "files w (filePath this) = None \<Longrightarrow>
   load e (this, w) =
     (case persist e (this, w) of
        (Inl err, st') \<Rightarrow> (Inl err, st')
      | (Inr u, (this', w')) \<Rightarrow> (Inr (), (this'\<lparr>users := Map_new []\<rparr>, w')))"
  by (simp add: load_def readFile_def)

lemma load_parsed:
  "readFile w (filePath this) = Inr raw \<Longrightarrow> JSON_parse e raw = Inr arr \<Longrightarrow>
   load e (this, w) = (Inr (), (this\<lparr>users := Map_new (map (\<lambda>u. (user_id u, u)) arr)\<rparr>, w))"
  by (simp add: load_def)

lemma load_read_error:
  "readFile w (filePath this) = Inl err \<Longrightarrow> err \<noteq> ErrnoException ''ENOENT'' \<Longrightarrow>
   load e (this, w) = (Inl err, (this, w))"
  by (simp add: load_def)

lemma load_parse_error:
  "readFile w (filePath this) = Inr raw \<Longrightarrow> JSON_parse e raw = Inl err \<Longrightarrow>
   err \<noteq> ErrnoException ''ENOENT'' \<Longrightarrow> load e (this, w) = (Inl err, (this, w))"
  by (simp add: load_def)

lemma new_parsed:
  assumes "readFile w (resolve_path e file) = Inr raw" "JSON_parse e raw = Inr arr"
  shows "FileStorage_new e file w =
    (None, (\<lparr>users = Map_new (map (\<lambda>u. (user_id u, u)) arr), filePath = resolve_path e file\<rparr>, w))"
proof -
  let ?obj = "\<lparr>users = Map_new [], filePath = resolve_path e file\<rparr>"
  have "readFile w (filePath ?obj) = Inr raw" using assms(1) by simp
  from load_parsed [OF this assms(2)] show ?thesis by (simp add: FileStorage_new_def)
qed

lemma example_parse_two: "example_parse (example_stringify [alice, bob]) = Inr [alice, bob]"
  by (simp add: example_parse_def example_stringify_def alice_def bob_def object_text_def
      member_text_def quote_def escape_def nl_def punctuation_def unescape_def step_def user_of_def)

lemma distinct_ids_of_values:
  "distinct (map fst m) \<Longrightarrow> keys_are_ids m \<Longrightarrow> distinct (map user_id (Map_values m))"
proof -
  assume d: "distinct (map fst m)" and k: "keys_are_ids m"
  have "map user_id (Map_values m) = map fst m"
    using k by (induction m) (auto simp: keys_are_ids_def Map_values_def)
  with d show ?thesis by simp
qed

lemma rekey_distinct:
  "distinct (map user_id vs) \<Longrightarrow> Map_values (Map_new (map (\<lambda>u. (user_id u, u)) vs)) = vs"
proof -
  assume "distinct (map user_id vs)"
  then have "distinct (map fst (map (\<lambda>u. (user_id u, u)) vs))" by (simp add: comp_def)
  then have "Map_new (map (\<lambda>u. (user_id u, u)) vs) = map (\<lambda>u. (user_id u, u)) vs"
    by (rule Map_new_distinct)
  then show ?thesis by (simp add: Map_values_def comp_def)
qed

lemma rekey_store:
  "distinct (map fst m) \<Longrightarrow> keys_are_ids m \<Longrightarrow>
   Map_new (map (\<lambda>u. (user_id u, u)) (Map_values m)) = m"
proof -
  assume d: "distinct (map fst m)" and k: "keys_are_ids m"
  have r: "map (\<lambda>u. (user_id u, u)) (Map_values m) = m" using d k by (rule rekey_values)
  show ?thesis unfolding r using d by (rule Map_new_distinct)
qed

lemma FileStorage_updateUser_users_absent:
  "Map_get (users this) i = None \<Longrightarrow>
   users (fst (snd (FileStorage_updateUser e i patch (this, w)))) = users this"
  by (simp add: updateUser_absent)

lemma keys_are_ids_update:
  "keys_are_ids m \<Longrightarrow> Map_get m i = Some ex \<Longrightarrow> keys_are_ids (Map_set m i (spread_patch ex patch))"
proof -
  assume k: "keys_are_ids m" and g: "Map_get m i = Some ex"
  have "user_id ex = i" using k g by (rule keys_are_ids_get)
  then have "user_id (spread_patch ex patch) = i" by (simp add: spread_patch_fields)
  with k show ?thesis by (rule keys_are_ids_set)
qed

lemma keys_are_ids_create: "keys_are_ids m \<Longrightarrow> keys_are_ids (Map_set m rid (spread_id ins rid))"
  by (rule keys_are_ids_set) (simp_all add: spread_id_fields)

lemma keys_are_ids_nil: "keys_are_ids []"
  by (simp add: keys_are_ids_def)

lemma Mem_ops_keys:
  assumes "keys_are_ids (users mem)"
  shows "keys_are_ids (users (snd (MemStorage_createUser rid ins mem)))"
    and "keys_are_ids (users (snd (MemStorage_updateUser i patch mem)))"
    and "keys_are_ids (users (snd (MemStorage_deleteUser i mem)))"
proof -
  show "keys_are_ids (users (snd (MemStorage_createUser rid ins mem)))"
    using assms by (simp add: MemStorage_createUser_eq keys_are_ids_create)
  show "keys_are_ids (users (snd (MemStorage_updateUser i patch mem)))"
  proof (cases "MemStorage_getUser i mem")
    case None
    then show ?thesis using assms by (simp add: MemStorage_updateUser_absent)
  next
    case (Some ex)
    then have "Map_get (users mem) i = Some ex" by (simp add: MemStorage_getUser_def)
    with assms have "keys_are_ids (Map_set (users mem) i (spread_patch ex patch))"
      by (rule keys_are_ids_update)
    then show ?thesis by (simp add: MemStorage_updateUser_present [OF Some])
  qed
  show "keys_are_ids (users (snd (MemStorage_deleteUser i mem)))"
    using assms by (simp add: MemStorage_deleteUser_eq keys_are_ids_delete)
qed

lemma File_ops_keys:
  assumes "keys_are_ids (users this)"
  shows "keys_are_ids (users (fst (snd (FileStorage_createUser e rid ins (this, w)))))"
    and "keys_are_ids (users (fst (snd (FileStorage_updateUser e i patch (this, w)))))"
    and "keys_are_ids (users (fst (snd (FileStorage_deleteUser e i (this, w)))))"
proof -
  show "keys_are_ids (users (fst (snd (FileStorage_createUser e rid ins (this, w)))))"
    using assms by (simp add: FileStorage_createUser_users keys_are_ids_create)
  show "keys_are_ids (users (fst (snd (FileStorage_updateUser e i patch (this, w)))))"
  proof (cases "Map_get (users this) i")
    case None
    then show ?thesis using assms by (simp add: FileStorage_updateUser_users_absent)
  next
    case (Some ex)
    with assms have "keys_are_ids (Map_set (users this) i (spread_patch ex patch))"
      by (rule keys_are_ids_update)
    then show ?thesis by (simp add: FileStorage_updateUser_users [OF Some])
  qed
  show "keys_are_ids (users (fst (snd (FileStorage_deleteUser e i (this, w)))))"
    using assms by (simp add: FileStorage_deleteUser_users keys_are_ids_delete)
qed

lemma persist_users: "users (fst (snd (persist e (this, w)))) = users this"
  by (cases "snapshot_fault w") (simp_all add: persist_ok persist_fault)

lemma load_keys:
  assumes "keys_are_ids (users this)"
  shows "keys_are_ids (users (fst (snd (load e (this, w)))))"
proof (cases "readFile w (filePath this)")
  case (Inl err)
  show ?thesis
  proof (cases "err = ErrnoException ''ENOENT''")
    case True
    have "users (fst (snd (load e (this, w)))) = users this \<or>
        users (fst (snd (load e (this, w)))) = []"
      using Inl True
      by (cases "snapshot_fault w")
         (simp_all add: load_def persist_ok persist_fault Map_new_nil)
    then show ?thesis using assms by (auto simp: keys_are_ids_nil)
  next
    case False
    then show ?thesis using assms Inl by (simp add: load_read_error)
  qed
next
  case (Inr raw)
  show ?thesis
  proof (cases "JSON_parse e raw")
    case (Inl err)
    show ?thesis
    proof (cases "err = ErrnoException ''ENOENT''")
      case True
      have "users (fst (snd (load e (this, w)))) = users this \<or>
          users (fst (snd (load e (this, w)))) = []"
        using Inr Inl True
        by (cases "snapshot_fault w")
           (simp_all add: load_def persist_ok persist_fault Map_new_nil)
      then show ?thesis using assms by (auto simp: keys_are_ids_nil)
    next
      case False
      then show ?thesis using assms Inr Inl by (simp add: load_parse_error)
    qed
  next
    case (Inr arr)
    then show ?thesis using \<open>readFile w (filePath this) = Inr raw\<close>
      by (simp add: load_parsed keys_are_ids_new)
  qed
qed

lemma new_keys: "keys_are_ids (users (fst (snd (FileStorage_new e file w))))"
proof -
  let ?obj = "\<lparr>users = Map_new [], filePath = resolve_path e file\<rparr>"
  have "keys_are_ids (users ?obj)" by (simp add: Map_new_nil keys_are_ids_nil)
  then have "keys_are_ids (users (fst (snd (load e (?obj, w)))))" by (rule load_keys)
  then show ?thesis
    by (cases "load e (?obj, w)" rule: prod.exhaust [where 'a = "error + unit"])
       (auto simp: FileStorage_new_def split: sum.splits)
qed

lemma Mem_call_keys:
  "keys_are_ids (users mem) \<Longrightarrow> keys_are_ids (users (snd (MemStorage_call c mem)))"
  using Mem_ops_keys [of mem]
  by (cases c) (auto split: prod.splits simp: prod_eq_iff dest: sndI)

lemma MemStorage_run_Cons:
  "MemStorage_run (c # cs) mem =
     (fst (MemStorage_call c mem) # fst (MemStorage_run cs (snd (MemStorage_call c mem))),
      snd (MemStorage_run cs (snd (MemStorage_call c mem))))"
  by (simp split: prod.splits)

lemma FileStorage_run_Cons:
  "FileStorage_run e (c # cs) st =
     (fst (FileStorage_call e c st) # fst (FileStorage_run e cs (snd (FileStorage_call e c st))),
      snd (FileStorage_run e cs (snd (FileStorage_call e c st))))"
  by (simp split: prod.splits)

lemma Mem_run_keys:
  "keys_are_ids (users mem) \<Longrightarrow> keys_are_ids (users (snd (MemStorage_run cs mem)))"
proof (induction cs arbitrary: mem)
  case Nil
  then show ?case by simp
next
  case (Cons c cs)
  from Cons.prems have "keys_are_ids (users (snd (MemStorage_call c mem)))" by (rule Mem_call_keys)
  then have "keys_are_ids (users (snd (MemStorage_run cs (snd (MemStorage_call c mem)))))"
    by (rule Cons.IH)
  then show ?case by (simp only: MemStorage_run_Cons snd_conv)
qed

lemma File_call_keys:
  "keys_are_ids (users (fst st)) \<Longrightarrow> keys_are_ids (users (fst (snd (FileStorage_call e c st))))"
proof -
  assume a: "keys_are_ids (users (fst st))"
  obtain this w where st: "st = (this, w)" by (cases st)
  with a have k: "keys_are_ids (users this)" by simp
  show ?thesis
  proof (cases c)
    case (CreateUser rid ins)
    with File_ops_keys(1) [OF k, of e rid ins w] show ?thesis
      by (auto simp: st split: prod.splits sum.splits)
  next
    case (UpdateUser i patch)
    with File_ops_keys(2) [OF k, of e i patch w] show ?thesis
      by (auto simp: st split: prod.splits sum.splits)
  next
    case (DeleteUser i)
    with File_ops_keys(3) [OF k, of e i w] show ?thesis
      by (auto simp: st split: prod.splits sum.splits)
  qed (use a in simp_all)
qed

lemma File_run_keys:
  "keys_are_ids (users (fst st)) \<Longrightarrow> keys_are_ids (users (fst (snd (FileStorage_run e cs st))))"
proof (induction cs arbitrary: st)
  case Nil
  then show ?case by simp
next
  case (Cons c cs)
  from Cons.prems have "keys_are_ids (users (fst (snd (FileStorage_call e c st))))"
    by (rule File_call_keys)
  then have "keys_are_ids (users (fst (snd (FileStorage_run e cs (snd (FileStorage_call e c st))))))"
    by (rule Cons.IH)
  then show ?case by (simp only: FileStorage_run_Cons snd_conv)
qed

lemma call_sim:
  assumes u: "users this = users mem" and nf: "snapshot_fault w = None"
  shows "fst (FileStorage_call e c (this, w)) = Inr (fst (MemStorage_call c mem)) \<and>
    users (fst (snd (FileStorage_call e c (this, w)))) = users (snd (MemStorage_call c mem)) \<and>
    snapshot_fault (snd (snd (FileStorage_call e c (this, w)))) = None \<and>
    filePath (fst (snd (FileStorage_call e c (this, w)))) = filePath this"
proof (cases c)
  case (GetUser i)
  then show ?thesis using u nf by (simp add: FileStorage_getUser_def MemStorage_getUser_def)
next
  case (GetUserByUsername name)
  then show ?thesis
    using u nf by (simp add: FileStorage_getUserByUsername_def MemStorage_getUserByUsername_def)
next
  case (CreateUser rid ins)
  then show ?thesis
    using u by (simp add: createUser_ok [OF nf] MemStorage_createUser_eq nf)
next
  case (UpdateUser i patch)
  show ?thesis
  proof (cases "Map_get (users this) i")
    case None
    then have "MemStorage_getUser i mem = None" using u by (simp add: MemStorage_getUser_def)
    then show ?thesis
      using None UpdateUser nf u
      by (simp add: updateUser_absent MemStorage_updateUser_absent)
  next
    case (Some ex)
    then have "MemStorage_getUser i mem = Some ex" using u by (simp add: MemStorage_getUser_def)
    then show ?thesis
      using UpdateUser u
      by (simp add: updateUser_ok [OF Some nf] MemStorage_updateUser_present nf)
  qed
next
  case (DeleteUser i)
  show ?thesis
  proof (cases "Map_has (users this) i")
    case True
    then show ?thesis
      using DeleteUser u
      by (simp add: deleteUser_ok [OF True nf] MemStorage_deleteUser_eq nf)
  next
    case False
    then show ?thesis
      using DeleteUser u nf
      by (simp add: deleteUser_absent MemStorage_deleteUser_eq Map_delete_absent)
  qed
next
  case ListUsers
  then show ?thesis using u nf by (simp add: FileStorage_listUsers_def MemStorage_listUsers_def)
qed

lemma call_sync:
  assumes s: "in_sync e (this, w)" and nf: "snapshot_fault w = None"
  shows "in_sync e (snd (FileStorage_call e c (this, w)))"
proof (cases c)
  case (CreateUser rid ins)
  then show ?thesis by (simp add: createUser_ok [OF nf] in_sync_def)
next
  case (UpdateUser i patch)
  show ?thesis
  proof (cases "Map_get (users this) i")
    case None
    then show ?thesis using UpdateUser s by (simp add: updateUser_absent)
  next
    case (Some ex)
    then show ?thesis using UpdateUser by (simp add: updateUser_ok [OF Some nf] in_sync_def)
  qed
next
  case (DeleteUser i)
  show ?thesis
  proof (cases "Map_has (users this) i")
    case True
    then show ?thesis using DeleteUser by (simp add: deleteUser_ok [OF True nf] in_sync_def)
  next
    case False
    then show ?thesis using DeleteUser s by (simp add: deleteUser_absent)
  qed
qed (use s in simp_all)

lemma run_sim:
  "users (fst st) = users mem \<Longrightarrow> snapshot_fault (snd st) = None \<Longrightarrow> in_sync e st \<Longrightarrow>
   fst (FileStorage_run e cs st) = map Inr (fst (MemStorage_run cs mem)) \<and>
   users (fst (snd (FileStorage_run e cs st))) = users (snd (MemStorage_run cs mem)) \<and>
   in_sync e (snd (FileStorage_run e cs st))"
proof (induction cs arbitrary: st mem)
  case Nil
  then show ?case by simp
next
  case (Cons c cs)
  obtain this w where st: "st = (this, w)" by (cases st)
  from Cons.prems have u: "users this = users mem" and nf: "snapshot_fault w = None"
    and s: "in_sync e (this, w)"
    by (simp_all add: st)
  let ?st' = "snd (FileStorage_call e c st)"
  let ?mem' = "snd (MemStorage_call c mem)"
  from call_sim [OF u nf, of e c]
  have r: "fst (FileStorage_call e c st) = Inr (fst (MemStorage_call c mem))"
    and u': "users (fst ?st') = users ?mem'"
    and nf': "snapshot_fault (snd ?st') = None"
    by (simp_all add: st)
  from call_sync [OF s nf, of c] have s': "in_sync e ?st'" by (simp add: st)
  from Cons.IH [OF u' nf' s'] r show ?case
    by (simp only: FileStorage_run_Cons MemStorage_run_Cons fst_conv snd_conv list.map)
qed

lemma Mem_run_example:
  "MemStorage_run example_calls MemStorage_new =
     ([Created alice, Created bob,
       Updated (Some \<lparr>username = ''alice'', password = ''h9'', user_id = ''a1''\<rparr>),
       Found (Some \<lparr>username = ''alice'', password = ''h9'', user_id = ''a1''\<rparr>),
       Found (Some bob), Deleted True, Deleted False,
       Listed [\<lparr>username = ''alice'', password = ''h9'', user_id = ''a1''\<rparr>]],
      \<lparr>users = [(''a1'', \<lparr>username = ''alice'', password = ''h9'', user_id = ''a1''\<rparr>)]\<rparr>)"
  by code_simp

lemma load_distinct:
  assumes "distinct (map fst (users this))"
  shows "distinct (map fst (users (fst (snd (load e (this, w))))))"
proof -
  have "users (fst (snd (load e (this, w)))) = users this \<or>
      users (fst (snd (load e (this, w)))) = [] \<or>
      (\<exists>arr. users (fst (snd (load e (this, w)))) = Map_new (map (\<lambda>u. (user_id u, u)) arr))"
    by (cases "snapshot_fault w")
       (auto simp: load_def persist_ok persist_fault Map_new_nil split: sum.splits)
  then show ?thesis using assms by (auto simp: distinct_Map_new)
qed

lemma new_distinct: "distinct (map fst (users (fst (snd (FileStorage_new e file w)))))"
proof -
  let ?obj = "\<lparr>users = Map_new [], filePath = resolve_path e file\<rparr>"
  have "distinct (map fst (users ?obj))" by (simp add: Map_new_nil)
  then have "distinct (map fst (users (fst (snd (load e (?obj, w))))))" by (rule load_distinct)
  then show ?thesis
    by (cases "load e (?obj, w)" rule: prod.exhaust [where 'a = "error + unit"])
       (auto simp: FileStorage_new_def split: sum.splits)
qed

lemma File_call_distinct:
  assumes "distinct (map fst (users (fst st)))"
  shows "distinct (map fst (users (fst (snd (FileStorage_call e c st)))))"
proof -
  obtain this w where st: "st = (this, w)" by (cases st)
  with assms have d: "distinct (map fst (users this))" by simp
  show ?thesis
  proof (cases c)
    case (CreateUser rid ins)
    have "distinct (map fst (users (fst (snd (FileStorage_createUser e rid ins (this, w))))))"
      using d by (simp add: FileStorage_createUser_users distinct_Map_set)
    with CreateUser show ?thesis by (auto simp: st split: prod.splits sum.splits)
  next
    case (UpdateUser i patch)
    have "distinct (map fst (users (fst (snd (FileStorage_updateUser e i patch (this, w))))))"
      using d
      by (cases "Map_get (users this) i")
         (simp_all add: FileStorage_updateUser_users FileStorage_updateUser_users_absent
            distinct_Map_set)
    with UpdateUser show ?thesis by (auto simp: st split: prod.splits sum.splits)
  next
    case (DeleteUser i)
    have "distinct (map fst (users (fst (snd (FileStorage_deleteUser e i (this, w))))))"
      using d by (simp add: FileStorage_deleteUser_users distinct_Map_delete)
    with DeleteUser show ?thesis by (auto simp: st split: prod.splits sum.splits)
  qed (use assms in simp_all)
qed

lemma File_run_distinct:
  "distinct (map fst (users (fst st))) \<Longrightarrow>
   distinct (map fst (users (fst (snd (FileStorage_run e cs st)))))"
proof (induction cs arbitrary: st)
  case Nil
  then show ?case by simp
next
  case (Cons c cs)
  from Cons.prems have "distinct (map fst (users (fst (snd (FileStorage_call e c st)))))"
    by (rule File_call_distinct)
  then have "distinct (map fst (users (fst (snd (FileStorage_run e cs (snd (FileStorage_call e c st)))))))"
    by (rule Cons.IH)
  then show ?case by (simp only: FileStorage_run_Cons snd_conv)
qed

lemma reached_distinct_ids:
  "distinct (map user_id
     (FileStorage_listUsers (snd (FileStorage_run e cs (snd (FileStorage_new e file w))))))"
proof -
  let ?st = "snd (FileStorage_run e cs (snd (FileStorage_new e file w)))"
  have "distinct (map fst (users (fst ?st)))" using new_distinct by (rule File_run_distinct)
  moreover have "keys_are_ids (users (fst ?st))" using new_keys by (rule File_run_keys)
  ultimately have "distinct (map user_id (Map_values (users (fst ?st))))"
    by (rule distinct_ids_of_values)
  then show ?thesis by (simp add: FileStorage_listUsers_def)
qed

section \<open>Calls split at their awaits, and sequences of calls\<close>

lemma alone_is_call:
  "FileStorage_schedule e (alone c) ([], st) =
     ([Returned (fst (FileStorage_call e c st))], snd (FileStorage_call e c st))"
proof -
  obtain this w where st: "st = (this, w)" by (cases st)
  show ?thesis
  proof (cases c)
    case (CreateUser rid ins)
    then show ?thesis
      by (simp add: st alone_def FileStorage_createUser_def persist_def mkdir_def writeFile_def
          Let_def split: option.splits)
  next
    case (UpdateUser i patch)
    then show ?thesis
      by (simp add: st alone_def FileStorage_updateUser_def persist_def mkdir_def writeFile_def
          Let_def split: option.splits)
  next
    case (DeleteUser i)
    then show ?thesis
      by (simp add: st alone_def FileStorage_deleteUser_def persist_def mkdir_def writeFile_def
          Let_def Map_delete_def split: option.splits)
  qed (simp_all add: st alone_def)
qed

lemma fresh_store_eq:
  "fresh_store =
     (\<lparr>users = [], filePath = ''data/users.json''\<rparr>,
      fresh_disk\<lparr>files := no_files(''data/users.json'' \<mapsto> ''[]'')\<rparr>)"
  by (simp add: fresh_store_def FileStorage_new_def load_def readFile_def resolve_path_def
      example_env_def fresh_disk_def no_files_def persist_def mkdir_def writeFile_def
      Map_new_def Map_values_def example_stringify_nil)

lemma overlap_run:
  "FileStorage_schedule example_env overlap ([], fresh_store) =
     ([Returned (Inr (Created alice)), Returned (Inr (Created bob))],
      (\<lparr>users = [(''a1'', alice), (''b2'', bob)], filePath = ''data/users.json''\<rparr>,
       fresh_disk\<lparr>files := no_files(''data/users.json'' \<mapsto> example_stringify [alice])\<rparr>))"
  by (simp add: overlap_def fresh_store_eq example_env_def fresh_disk_def mkdir_def writeFile_def
      Let_def spread_id_def alice_fields_def bob_fields_def alice_def bob_def Map_values_def)

lemma enter_createUser:
  "FileStorage_enter (CreateUser rid ins) (this, w) =
     (Awaiting_mkdir (Map_values (Map_set (users this) rid (spread_id ins rid)))
        (Created (spread_id ins rid)),
      (this\<lparr>users := Map_set (users this) rid (spread_id ins rid)\<rparr>, w))"
  by (simp add: Let_def)

lemma enter_updateUser_present:
  "Map_get (users this) i = Some ex \<Longrightarrow>
   FileStorage_enter (UpdateUser i patch) (this, w) =
     (Awaiting_mkdir (Map_values (Map_set (users this) i (spread_patch ex patch)))
        (Updated (Some (spread_patch ex patch))),
      (this\<lparr>users := Map_set (users this) i (spread_patch ex patch)\<rparr>, w))"
  by (simp add: Let_def)

lemma enter_deleteUser_present:
  "Map_has (users this) i \<Longrightarrow>
   FileStorage_enter (DeleteUser i) (this, w) =
     (Awaiting_mkdir (Map_values (snd (Map_delete (users this) i))) (Deleted True),
      (this\<lparr>users := snd (Map_delete (users this) i)\<rparr>, w))"
  by (simp add: Map_delete_def)

lemma enter_updateUser_absent:
  "Map_get (users this) i = None \<Longrightarrow>
   FileStorage_enter (UpdateUser i patch) (this, w) = (Returned (Inr (Updated None)), (this, w))"
  by simp

lemma enter_deleteUser_absent:
  "\<not> Map_has (users this) i \<Longrightarrow>
   FileStorage_enter (DeleteUser i) (this, w) = (Returned (Inr (Deleted False)), (this, w))"
  by (simp add: Map_delete_absent)

lemma resume_mkdir_no_result:
  "fst (FileStorage_resume e (Awaiting_mkdir arr r) st) \<noteq> Returned (Inr x)"
  by (cases st) (simp add: mkdir_def split: option.splits)

lemma resume_writeFile_result:
  "FileStorage_resume e (Awaiting_writeFile arr r) st = (Returned (Inr r'), st') \<Longrightarrow>
   r' = r \<and> files (snd st') (filePath (fst st')) = Some (JSON_stringify e arr)"
  by (cases st) (auto simp: writeFile_def split: option.splits)







section \<open>Claims\<close>

subsection \<open>C1: the snapshot after a mutating call\<close>

text \<open>
  Claim C1 says that after every successful call of \<open>createUser\<close>, \<open>updateUser\<close> or
  \<open>deleteUser\<close> the snapshot file holds the serialization of the collection. Two things
  stand against it. A call that finds no record returns without writing: after loading
  a file that holds two records with one id, the collection has one record and the
  file still has two, and \<open>deleteUser\<close> and \<open>updateUser\<close> on an id that is not stored
  return \<open>false\<close> and absent and leave the file as it is. And calls can overlap:
  \<open>persist\<close> fixes the array before it awaits \<open>mkdir\<close> and \<open>writeFile\<close>, so when a second
  \<open>createUser\<close> enters while the first one is suspended, and the first one is resumed
  last, both calls return their records, the collection holds both records and the
  file holds the first one alone.
\<close>

theorem C1_snapshot_counterexample:
  "FileStorage_listUsers duplicate_store = [alice_again] \<and>
   files (snd duplicate_store) (filePath (fst duplicate_store)) =
     Some (example_stringify [alice, alice_again]) \<and>
   FileStorage_deleteUser example_env ''zz'' duplicate_store = (Inr False, duplicate_store) \<and>
   FileStorage_updateUser example_env ''zz'' new_secret duplicate_store = (Inr None, duplicate_store) \<and>
   \<not> in_sync example_env duplicate_store \<and>
   in_sync example_env fresh_store \<and>
   fst (FileStorage_schedule example_env overlap ([], fresh_store)) =
     [Returned (Inr (Created alice)), Returned (Inr (Created bob))] \<and>
   FileStorage_listUsers (snd (FileStorage_schedule example_env overlap ([], fresh_store))) =
     [alice, bob] \<and>
   files (snd (snd (FileStorage_schedule example_env overlap ([], fresh_store))))
     ''data/users.json'' = Some (example_stringify [alice]) \<and>
   \<not> in_sync example_env (snd (FileStorage_schedule example_env overlap ([], fresh_store)))"
proof -
  have l: "FileStorage_listUsers duplicate_store = [alice_again]"
    by (simp add: duplicate_store_eq FileStorage_listUsers_def Map_values_def)
  have f: "files (snd duplicate_store) (filePath (fst duplicate_store)) =
      Some (example_stringify [alice, alice_again])"
    by (simp add: duplicate_store_eq duplicate_disk_def fresh_disk_def no_files_def)
  have "\<not> Map_has (users (fst duplicate_store)) ''zz''"
    by (simp add: duplicate_store_eq Map_has_def)
  then have d: "FileStorage_deleteUser example_env ''zz'' duplicate_store = (Inr False, duplicate_store)"
    using deleteUser_absent [of "fst duplicate_store" "''zz''" example_env "snd duplicate_store"]
    by simp
  have "Map_get (users (fst duplicate_store)) ''zz'' = None"
    by (simp add: duplicate_store_eq Map_get_def)
  then have u: "FileStorage_updateUser example_env ''zz'' new_secret duplicate_store =
      (Inr None, duplicate_store)"
    using updateUser_absent [of "fst duplicate_store" "''zz''" example_env new_secret
        "snd duplicate_store"]
    by simp
  have n: "\<not> in_sync example_env duplicate_store"
    by (simp add: in_sync_def duplicate_store_eq duplicate_disk_def fresh_disk_def no_files_def
        example_env_def Map_values_def example_stringify_def join.simps)
  have s0: "in_sync example_env fresh_store"
    by (simp add: in_sync_def fresh_store_eq fresh_disk_def example_env_def Map_values_def
        example_stringify_nil)
  have o: "\<not> in_sync example_env (snd (FileStorage_schedule example_env overlap ([], fresh_store)))"
    unfolding overlap_run
    by (simp add: in_sync_def fresh_disk_def example_env_def Map_values_def
        example_stringify_def join.simps)
  have ol: "FileStorage_listUsers (snd (FileStorage_schedule example_env overlap ([], fresh_store))) =
     [alice, bob]"
    by (simp add: overlap_run FileStorage_listUsers_def Map_values_def)
  have fo: "files (snd (snd (FileStorage_schedule example_env overlap ([], fresh_store))))
     ''data/users.json'' = Some (example_stringify [alice])"
    by (simp add: overlap_run fresh_disk_def)
  from l f d u n s0 o ol fo show ?thesis by (simp add: overlap_run)
qed

text \<open>
  Claim C1, amended. In the Durable Store take a call that runs alone, with no other
  call between its entry and its return: this is what \<open>FileStorage_createUser\<close>,
  \<open>FileStorage_updateUser\<close> and \<open>FileStorage_deleteUser\<close> compute (first conjunct). When
  such a \<open>createUser\<close> returns a record, such an \<open>updateUser\<close> returns a merged record or
  such a \<open>deleteUser\<close> returns \<open>true\<close>, the snapshot write of that call was not rejected
  and the snapshot file holds the serialization of the collection as the call leaves
  it; and \<open>createUser\<close>, and \<open>updateUser\<close> and \<open>deleteUser\<close> on an id that has a record, do
  return so when the write is not rejected. \<open>updateUser\<close> and \<open>deleteUser\<close> on an id that
  has no record return absent and \<open>false\<close> at once, without suspension and without
  writing: the collection and the file system are as they were. Overlapping or not,
  \<open>createUser\<close>, and \<open>updateUser\<close> and \<open>deleteUser\<close> on an id that has a record, are
  suspended at \<open>mkdir\<close> holding the collection as they have changed it, no call returns
  a result from the await of \<open>mkdir\<close>, and a call that returns a result from the await
  of \<open>writeFile\<close> has just written the array it holds: no such call returns its result
  before its snapshot write has completed.
\<close>

theorem C1_snapshot_after_mutation:
  "FileStorage_schedule e (alone c) ([], st) =
     ([Returned (fst (FileStorage_call e c st))], snd (FileStorage_call e c st)) \<and>
   (FileStorage_createUser e rid ins (this, w) = (Inr u1, st1) \<longrightarrow>
      snapshot_fault w = None \<and> in_sync e st1) \<and>
   (FileStorage_updateUser e i patch (this, w) = (Inr (Some u2), st2) \<longrightarrow>
      snapshot_fault w = None \<and> in_sync e st2) \<and>
   (FileStorage_deleteUser e j (this, w) = (Inr True, st3) \<longrightarrow>
      snapshot_fault w = None \<and> in_sync e st3) \<and>
   (snapshot_fault w = None \<longrightarrow>
      fst (FileStorage_createUser e rid ins (this, w)) = Inr (spread_id ins rid) \<and>
      in_sync e (snd (FileStorage_createUser e rid ins (this, w)))) \<and>
   (snapshot_fault w = None \<and> FileStorage_getUser i (this, w) = Some ex \<longrightarrow>
      fst (FileStorage_updateUser e i patch (this, w)) = Inr (Some (spread_patch ex patch)) \<and>
      in_sync e (snd (FileStorage_updateUser e i patch (this, w)))) \<and>
   (snapshot_fault w = None \<and> FileStorage_getUser j (this, w) = Some ex' \<longrightarrow>
      fst (FileStorage_deleteUser e j (this, w)) = Inr True \<and>
      in_sync e (snd (FileStorage_deleteUser e j (this, w)))) \<and>
   (FileStorage_getUser i' (this, w) = None \<longrightarrow>
      FileStorage_updateUser e i' patch' (this, w) = (Inr None, (this, w)) \<and>
      FileStorage_enter (UpdateUser i' patch') (this, w) =
        (Returned (Inr (Updated None)), (this, w))) \<and>
   (FileStorage_getUser j' (this, w) = None \<longrightarrow>
      FileStorage_deleteUser e j' (this, w) = (Inr False, (this, w)) \<and>
      FileStorage_enter (DeleteUser j') (this, w) =
        (Returned (Inr (Deleted False)), (this, w))) \<and>
   fst (FileStorage_enter (CreateUser rid ins) (this, w)) =
     Awaiting_mkdir (FileStorage_listUsers (snd (FileStorage_enter (CreateUser rid ins) (this, w))))
       (Created (spread_id ins rid)) \<and>
   (FileStorage_getUser i (this, w) = Some ex \<longrightarrow>
      fst (FileStorage_enter (UpdateUser i patch) (this, w)) =
        Awaiting_mkdir (FileStorage_listUsers (snd (FileStorage_enter (UpdateUser i patch) (this, w))))
          (Updated (Some (spread_patch ex patch)))) \<and>
   (FileStorage_getUser j (this, w) = Some ex' \<longrightarrow>
      fst (FileStorage_enter (DeleteUser j) (this, w)) =
        Awaiting_mkdir (FileStorage_listUsers (snd (FileStorage_enter (DeleteUser j) (this, w))))
          (Deleted True)) \<and>
   (\<forall>x. fst (FileStorage_resume e (Awaiting_mkdir arr r) sa) \<noteq> Returned (Inr x)) \<and>
   (FileStorage_resume e (Awaiting_writeFile arr r) sa = (Returned (Inr r'), sb) \<longrightarrow>
      r' = r \<and> files (snd sb) (filePath (fst sb)) = Some (JSON_stringify e arr))"
proof -
  have al: "FileStorage_schedule e (alone c) ([], st) =
     ([Returned (fst (FileStorage_call e c st))], snd (FileStorage_call e c st))"
    by (rule alone_is_call)
  have cr: "FileStorage_createUser e rid ins (this, w) = (Inr u1, st1) \<longrightarrow>
      snapshot_fault w = None \<and> in_sync e st1"
    by (cases "snapshot_fault w") (auto simp: createUser_ok createUser_fault in_sync_def)
  have up: "FileStorage_updateUser e i patch (this, w) = (Inr (Some u2), st2) \<longrightarrow>
      snapshot_fault w = None \<and> in_sync e st2"
    by (cases "snapshot_fault w"; cases "Map_get (users this) i")
       (auto simp: updateUser_ok updateUser_fault updateUser_absent in_sync_def)
  have de: "FileStorage_deleteUser e j (this, w) = (Inr True, st3) \<longrightarrow>
      snapshot_fault w = None \<and> in_sync e st3"
    by (cases "snapshot_fault w"; cases "Map_has (users this) j")
       (auto simp: deleteUser_ok deleteUser_fault deleteUser_absent in_sync_def)
  have crt: "snapshot_fault w = None \<longrightarrow>
      fst (FileStorage_createUser e rid ins (this, w)) = Inr (spread_id ins rid) \<and>
      in_sync e (snd (FileStorage_createUser e rid ins (this, w)))"
    by (simp add: createUser_ok in_sync_def)
  have upt: "snapshot_fault w = None \<and> FileStorage_getUser i (this, w) = Some ex \<longrightarrow>
      fst (FileStorage_updateUser e i patch (this, w)) = Inr (Some (spread_patch ex patch)) \<and>
      in_sync e (snd (FileStorage_updateUser e i patch (this, w)))"
    by (simp add: FileStorage_getUser_def updateUser_ok in_sync_def)
  have det: "snapshot_fault w = None \<and> FileStorage_getUser j (this, w) = Some ex' \<longrightarrow>
      fst (FileStorage_deleteUser e j (this, w)) = Inr True \<and>
      in_sync e (snd (FileStorage_deleteUser e j (this, w)))"
    by (simp add: FileStorage_getUser_def Map_has_get deleteUser_ok in_sync_def)
  have un: "FileStorage_getUser i' (this, w) = None \<longrightarrow>
      FileStorage_updateUser e i' patch' (this, w) = (Inr None, (this, w)) \<and>
      FileStorage_enter (UpdateUser i' patch') (this, w) =
        (Returned (Inr (Updated None)), (this, w))"
    by (simp add: FileStorage_getUser_def updateUser_absent)
  have dn: "FileStorage_getUser j' (this, w) = None \<longrightarrow>
      FileStorage_deleteUser e j' (this, w) = (Inr False, (this, w)) \<and>
      FileStorage_enter (DeleteUser j') (this, w) =
        (Returned (Inr (Deleted False)), (this, w))"
  proof
    assume "FileStorage_getUser j' (this, w) = None"
    then have "\<not> Map_has (users this) j'" by (simp add: FileStorage_getUser_def Map_has_get)
    then show "FileStorage_deleteUser e j' (this, w) = (Inr False, (this, w)) \<and>
      FileStorage_enter (DeleteUser j') (this, w) =
        (Returned (Inr (Deleted False)), (this, w))"
      using deleteUser_absent [of this j' e w] enter_deleteUser_absent [of this j' w] by simp
  qed
  have ec: "fst (FileStorage_enter (CreateUser rid ins) (this, w)) =
     Awaiting_mkdir (FileStorage_listUsers (snd (FileStorage_enter (CreateUser rid ins) (this, w))))
       (Created (spread_id ins rid))"
    by (simp add: FileStorage_listUsers_def Let_def)
  have eu: "FileStorage_getUser i (this, w) = Some ex \<longrightarrow>
      fst (FileStorage_enter (UpdateUser i patch) (this, w)) =
        Awaiting_mkdir (FileStorage_listUsers (snd (FileStorage_enter (UpdateUser i patch) (this, w))))
          (Updated (Some (spread_patch ex patch)))"
    by (simp add: FileStorage_getUser_def FileStorage_listUsers_def Let_def)
  have ed: "FileStorage_getUser j (this, w) = Some ex' \<longrightarrow>
      fst (FileStorage_enter (DeleteUser j) (this, w)) =
        Awaiting_mkdir (FileStorage_listUsers (snd (FileStorage_enter (DeleteUser j) (this, w))))
          (Deleted True)"
  proof
    assume "FileStorage_getUser j (this, w) = Some ex'"
    then have "Map_has (users this) j" by (simp add: FileStorage_getUser_def Map_has_get)
    then show "fst (FileStorage_enter (DeleteUser j) (this, w)) =
        Awaiting_mkdir (FileStorage_listUsers (snd (FileStorage_enter (DeleteUser j) (this, w))))
          (Deleted True)"
      by (simp add: FileStorage_listUsers_def Map_delete_def)
  qed
  have rm: "\<forall>x. fst (FileStorage_resume e (Awaiting_mkdir arr r) sa) \<noteq> Returned (Inr x)"
    by (intro allI resume_mkdir_no_result)
  have rw: "FileStorage_resume e (Awaiting_writeFile arr r) sa = (Returned (Inr r'), sb) \<longrightarrow>
      r' = r \<and> files (snd sb) (filePath (fst sb)) = Some (JSON_stringify e arr)"
    using resume_writeFile_result by blast
  from al cr up de crt upt det un dn ec eu ed rm rw show ?thesis by simp
qed

theorem C1_snapshot_after_mutation_witness:
  "snapshot_fault (snd alice_store) = None \<and>
   FileStorage_getUser ''a1'' alice_store = Some alice \<and>
   FileStorage_getUser ''zz'' alice_store = None \<and>
   FileStorage_schedule example_env (alone (CreateUser ''b2'' bob_fields)) ([], alice_store) =
     ([Returned (Inr (Created bob))],
      snd (FileStorage_createUser example_env ''b2'' bob_fields alice_store)) \<and>
   FileStorage_createUser example_env ''b2'' bob_fields alice_store =
     (Inr bob, snd (FileStorage_createUser example_env ''b2'' bob_fields alice_store)) \<and>
   in_sync example_env (snd (FileStorage_createUser example_env ''b2'' bob_fields alice_store)) \<and>
   FileStorage_updateUser example_env ''a1'' new_secret alice_store =
     (Inr (Some \<lparr>username = ''alice'', password = ''h9'', user_id = ''a1''\<rparr>),
      snd (FileStorage_updateUser example_env ''a1'' new_secret alice_store)) \<and>
   in_sync example_env (snd (FileStorage_updateUser example_env ''a1'' new_secret alice_store)) \<and>
   FileStorage_deleteUser example_env ''a1'' alice_store =
     (Inr True, snd (FileStorage_deleteUser example_env ''a1'' alice_store)) \<and>
   in_sync example_env (snd (FileStorage_deleteUser example_env ''a1'' alice_store)) \<and>
   files (snd (snd (FileStorage_deleteUser example_env ''a1'' alice_store))) ''data/users.json'' =
     Some ''[]'' \<and>
   FileStorage_updateUser example_env ''zz'' new_secret alice_store = (Inr None, alice_store) \<and>
   FileStorage_deleteUser example_env ''zz'' alice_store = (Inr False, alice_store)"
proof -
  have nf: "snapshot_fault (snd alice_store) = None"
    by (simp add: alice_store_eq snapshot_fault_def alice_disk_def fresh_disk_def)
  have c: "fst (FileStorage_createUser example_env ''b2'' bob_fields alice_store) = Inr bob"
    using createUser_ok [OF nf, of example_env "''b2''" bob_fields "fst alice_store"]
    by (simp add: spread_id_def bob_fields_def bob_def)
  have g: "Map_get (users (fst alice_store)) ''a1'' = Some alice"
    by (simp add: alice_store_eq Map_get_def)
  have u: "fst (FileStorage_updateUser example_env ''a1'' new_secret alice_store) =
      Inr (Some \<lparr>username = ''alice'', password = ''h9'', user_id = ''a1''\<rparr>)"
    using updateUser_ok [OF g nf, of example_env new_secret]
    by (simp add: spread_patch_def new_secret_def alice_def)
  have h: "Map_has (users (fst alice_store)) ''a1''"
    by (simp add: alice_store_eq Map_has_def)
  have d: "fst (FileStorage_deleteUser example_env ''a1'' alice_store) = Inr True"
    using deleteUser_ok [OF h nf, of example_env] by simp
  have df: "files (snd (snd (FileStorage_deleteUser example_env ''a1'' alice_store)))
      ''data/users.json'' = Some ''[]''"
    using deleteUser_ok [OF h nf, of example_env]
    by (simp add: alice_store_eq Map_delete_def Map_values_def example_env_def
        example_stringify_nil)
  have z1: "Map_get (users (fst alice_store)) ''zz'' = None"
    by (simp add: alice_store_eq Map_get_def)
  have z2: "\<not> Map_has (users (fst alice_store)) ''zz''"
    by (simp add: alice_store_eq Map_has_def)
  have un: "FileStorage_updateUser example_env ''zz'' new_secret alice_store = (Inr None, alice_store)"
    using updateUser_absent [OF z1, of example_env new_secret "snd alice_store"] by simp
  have dn: "FileStorage_deleteUser example_env ''zz'' alice_store = (Inr False, alice_store)"
    using deleteUser_absent [OF z2, of example_env "snd alice_store"] by simp
  have eqs:
    "FileStorage_createUser example_env ''b2'' bob_fields (fst alice_store, snd alice_store) =
       (Inr bob, snd (FileStorage_createUser example_env ''b2'' bob_fields alice_store))"
    "FileStorage_updateUser example_env ''a1'' new_secret (fst alice_store, snd alice_store) =
       (Inr (Some \<lparr>username = ''alice'', password = ''h9'', user_id = ''a1''\<rparr>),
        snd (FileStorage_updateUser example_env ''a1'' new_secret alice_store))"
    "FileStorage_deleteUser example_env ''a1'' (fst alice_store, snd alice_store) =
       (Inr True, snd (FileStorage_deleteUser example_env ''a1'' alice_store))"
    using c u d by (simp_all add: prod_eq_iff)
  have ga: "FileStorage_getUser ''a1'' (fst alice_store, snd alice_store) = Some alice"
    by (simp add: FileStorage_getUser_def alice_store_eq Map_get_def)
  have gz: "FileStorage_getUser ''zz'' (fst alice_store, snd alice_store) = None"
    by (simp add: FileStorage_getUser_def alice_store_eq Map_get_def)
  have cc: "FileStorage_call example_env (CreateUser ''b2'' bob_fields) alice_store =
      (Inr (Created bob), snd (FileStorage_createUser example_env ''b2'' bob_fields alice_store))"
    using c by (cases "FileStorage_createUser example_env ''b2'' bob_fields alice_store") auto
  show ?thesis
    using C1_snapshot_after_mutation [where e = example_env and c = "CreateUser ''b2'' bob_fields"
        and st = alice_store and rid = "''b2''" and ins = bob_fields and this = "fst alice_store"
        and w = "snd alice_store" and ?u1.0 = bob
        and ?st1.0 = "snd (FileStorage_createUser example_env ''b2'' bob_fields alice_store)"
        and i = "''a1''" and patch = new_secret
        and ?u2.0 = "\<lparr>username = ''alice'', password = ''h9'', user_id = ''a1''\<rparr>"
        and ?st2.0 = "snd (FileStorage_updateUser example_env ''a1'' new_secret alice_store)"
        and j = "''a1''"
        and ?st3.0 = "snd (FileStorage_deleteUser example_env ''a1'' alice_store)"
        and ex = alice and ex' = alice and i' = "''zz''" and patch' = new_secret and j' = "''zz''"]
      eqs un dn df nf ga gz cc
    by simp
qed

subsection \<open>C2: a rejected snapshot write\<close>

text \<open>
  Claim C2. When the snapshot write of the Durable Store is rejected (by \<open>mkdir\<close> or by
  \<open>writeFile\<close>), \<open>createUser\<close>, and \<open>updateUser\<close> and \<open>deleteUser\<close> on an id that has a
  record, are rejected with the error of the file system, and the collection in memory
  is the one the Volatile Store holds after the same call: the created record is
  stored, the merged record is stored, the deleted record is gone. Nothing is rolled
  back.
\<close>

theorem C2_persist_fault:
  assumes "snapshot_fault w = Some c"
  shows
  "fst (FileStorage_createUser e rid ins (this, w)) = Inl (ErrnoException c) \<and>
   memory_of (snd (FileStorage_createUser e rid ins (this, w))) =
     snd (MemStorage_createUser rid ins (memory_of (this, w))) \<and>
   FileStorage_getUser rid (snd (FileStorage_createUser e rid ins (this, w))) =
     Some (spread_id ins rid) \<and>
   (FileStorage_getUser i (this, w) = Some ex \<longrightarrow>
      fst (FileStorage_updateUser e i patch (this, w)) = Inl (ErrnoException c) \<and>
      memory_of (snd (FileStorage_updateUser e i patch (this, w))) =
        snd (MemStorage_updateUser i patch (memory_of (this, w))) \<and>
      FileStorage_getUser i (snd (FileStorage_updateUser e i patch (this, w))) =
        Some (spread_patch ex patch)) \<and>
   (FileStorage_getUser j (this, w) = Some ex' \<longrightarrow>
      fst (FileStorage_deleteUser e j (this, w)) = Inl (ErrnoException c) \<and>
      memory_of (snd (FileStorage_deleteUser e j (this, w))) =
        snd (MemStorage_deleteUser j (memory_of (this, w))) \<and>
      FileStorage_getUser j (snd (FileStorage_deleteUser e j (this, w))) = None)"
proof -
  have cr: "fst (FileStorage_createUser e rid ins (this, w)) = Inl (ErrnoException c) \<and>
   memory_of (snd (FileStorage_createUser e rid ins (this, w))) =
     snd (MemStorage_createUser rid ins (memory_of (this, w))) \<and>
   FileStorage_getUser rid (snd (FileStorage_createUser e rid ins (this, w))) =
     Some (spread_id ins rid)"
    using assms
    by (simp add: createUser_fault memory_of_def MemStorage_createUser_eq FileStorage_getUser_def
        Map_get_set)
  have up: "FileStorage_getUser i (this, w) = Some ex \<longrightarrow>
      fst (FileStorage_updateUser e i patch (this, w)) = Inl (ErrnoException c) \<and>
      memory_of (snd (FileStorage_updateUser e i patch (this, w))) =
        snd (MemStorage_updateUser i patch (memory_of (this, w))) \<and>
      FileStorage_getUser i (snd (FileStorage_updateUser e i patch (this, w))) =
        Some (spread_patch ex patch)"
  proof
    assume "FileStorage_getUser i (this, w) = Some ex"
    then have g: "Map_get (users this) i = Some ex" by (simp add: FileStorage_getUser_def)
    then have g': "MemStorage_getUser i \<lparr>users = users this\<rparr> = Some ex"
      by (simp add: MemStorage_getUser_def)
    show "fst (FileStorage_updateUser e i patch (this, w)) = Inl (ErrnoException c) \<and>
      memory_of (snd (FileStorage_updateUser e i patch (this, w))) =
        snd (MemStorage_updateUser i patch (memory_of (this, w))) \<and>
      FileStorage_getUser i (snd (FileStorage_updateUser e i patch (this, w))) =
        Some (spread_patch ex patch)"
      using assms g
      by (simp add: updateUser_fault MemStorage_updateUser_present [OF g'] memory_of_def
          FileStorage_getUser_def Map_get_set)
  qed
  have de: "FileStorage_getUser j (this, w) = Some ex' \<longrightarrow>
      fst (FileStorage_deleteUser e j (this, w)) = Inl (ErrnoException c) \<and>
      memory_of (snd (FileStorage_deleteUser e j (this, w))) =
        snd (MemStorage_deleteUser j (memory_of (this, w))) \<and>
      FileStorage_getUser j (snd (FileStorage_deleteUser e j (this, w))) = None"
  proof
    assume "FileStorage_getUser j (this, w) = Some ex'"
    then have h: "Map_has (users this) j" by (simp add: FileStorage_getUser_def Map_has_get)
    show "fst (FileStorage_deleteUser e j (this, w)) = Inl (ErrnoException c) \<and>
      memory_of (snd (FileStorage_deleteUser e j (this, w))) =
        snd (MemStorage_deleteUser j (memory_of (this, w))) \<and>
      FileStorage_getUser j (snd (FileStorage_deleteUser e j (this, w))) = None"
      using assms h
      by (simp add: deleteUser_fault MemStorage_deleteUser_eq memory_of_def
          FileStorage_getUser_def Map_get_delete)
  qed
  from cr up de show ?thesis by blast
qed

theorem C2_persist_fault_witness:
  "snapshot_fault (snd alice_store_readonly) = Some ''EACCES'' \<and>
   fst (FileStorage_createUser example_env ''b2'' bob_fields alice_store_readonly) =
     Inl (ErrnoException ''EACCES'') \<and>
   FileStorage_listUsers (snd (FileStorage_createUser example_env ''b2'' bob_fields alice_store_readonly)) =
     [alice, bob] \<and>
   FileStorage_getUser ''a1'' alice_store_readonly = Some alice \<and>
   fst (FileStorage_updateUser example_env ''a1'' new_secret alice_store_readonly) =
     Inl (ErrnoException ''EACCES'') \<and>
   FileStorage_getUser ''a1'' (snd (FileStorage_updateUser example_env ''a1'' new_secret alice_store_readonly)) =
     Some \<lparr>username = ''alice'', password = ''h9'', user_id = ''a1''\<rparr> \<and>
   fst (FileStorage_deleteUser example_env ''a1'' alice_store_readonly) =
     Inl (ErrnoException ''EACCES'') \<and>
   FileStorage_listUsers (snd (FileStorage_deleteUser example_env ''a1'' alice_store_readonly)) = []"
proof -
  have 4: "snapshot_fault (snd alice_store_readonly) = Some ''EACCES''"
    by (simp add: alice_store_readonly_eq snapshot_fault_def alice_disk_def fresh_disk_def)
  have g: "FileStorage_getUser ''a1'' (fst alice_store_readonly, snd alice_store_readonly) = Some alice"
    by (simp add: FileStorage_getUser_def alice_store_readonly_eq Map_get_def)
  have l1: "FileStorage_listUsers (snd (FileStorage_createUser example_env ''b2'' bob_fields alice_store_readonly)) =
     [alice, bob]"
    using FileStorage_createUser_users [of example_env "''b2''" bob_fields
        "fst alice_store_readonly" "snd alice_store_readonly"]
    by (simp add: FileStorage_listUsers_def alice_store_readonly_eq Map_values_def spread_id_def
        bob_fields_def bob_def)
  have l2: "FileStorage_listUsers (snd (FileStorage_deleteUser example_env ''a1'' alice_store_readonly)) = []"
    using FileStorage_deleteUser_users [of example_env "''a1''"
        "fst alice_store_readonly" "snd alice_store_readonly"]
    by (simp add: FileStorage_listUsers_def alice_store_readonly_eq Map_values_def Map_delete_def)
  show ?thesis
    using C2_persist_fault [OF 4, of example_env "''b2''" bob_fields "fst alice_store_readonly"
        "''a1''" alice new_secret "''a1''" alice] g l1 l2 4
    by (simp add: alice_def spread_patch_def new_secret_def)
qed

subsection \<open>C3: the first run\<close>

text \<open>
  Claim C3. When the snapshot file does not exist at the path of a new Durable Store,
  the collection is empty after readiness: \<open>listUsers()\<close> is the empty sequence. The load
  then writes the snapshot of the empty collection: whenever the load ends without a
  logged error the file exists and holds the serialization of the empty array (\<open>[]\<close> in
  the example), and it ends so when the write is not rejected. Only the not-found
  condition starts this: when the file exists and reading it is rejected with another
  code, the error is logged, the collection is empty and the file system is untouched.
\<close>

theorem C3_bootstrap:
  "(files w (resolve_path e file) = None \<longrightarrow>
      FileStorage_listUsers (snd (FileStorage_new e file w)) = [] \<and>
      filePath (fst (snd (FileStorage_new e file w))) = resolve_path e file \<and>
      (snapshot_fault w = None \<longrightarrow>
         fst (FileStorage_new e file w) = None \<and>
         files (snd (snd (FileStorage_new e file w))) (resolve_path e file) =
           Some (JSON_stringify e []) \<and>
         in_sync e (snd (FileStorage_new e file w)))) \<and>
   (files w (resolve_path e file) = Some raw \<and> read_fault w = Some c \<and> c \<noteq> ''ENOENT'' \<longrightarrow>
      FileStorage_new e file w =
        (Some (ErrnoException c), (\<lparr>users = [], filePath = resolve_path e file\<rparr>, w))) \<and>
   (files w (resolve_path e file) = None \<and> fst (FileStorage_new e file w) = None \<longrightarrow>
      files (snd (snd (FileStorage_new e file w))) (resolve_path e file) =
        Some (JSON_stringify e []))"
proof -
  let ?obj = "\<lparr>users = Map_new [], filePath = resolve_path e file\<rparr>"
  have a: "files w (resolve_path e file) = None \<longrightarrow>
      FileStorage_listUsers (snd (FileStorage_new e file w)) = [] \<and>
      filePath (fst (snd (FileStorage_new e file w))) = resolve_path e file \<and>
      (snapshot_fault w = None \<longrightarrow>
         fst (FileStorage_new e file w) = None \<and>
         files (snd (snd (FileStorage_new e file w))) (resolve_path e file) =
           Some (JSON_stringify e []) \<and>
         in_sync e (snd (FileStorage_new e file w)))"
  proof
    assume "files w (resolve_path e file) = None"
    then have nf: "files w (filePath ?obj) = None" by simp
    show "FileStorage_listUsers (snd (FileStorage_new e file w)) = [] \<and>
      filePath (fst (snd (FileStorage_new e file w))) = resolve_path e file \<and>
      (snapshot_fault w = None \<longrightarrow>
         fst (FileStorage_new e file w) = None \<and>
         files (snd (snd (FileStorage_new e file w))) (resolve_path e file) =
           Some (JSON_stringify e []) \<and>
         in_sync e (snd (FileStorage_new e file w)))"
    proof (cases "snapshot_fault w")
      case None
      then show ?thesis
        using load_not_found [OF nf, of e]
        by (simp add: FileStorage_new_def persist_ok FileStorage_listUsers_def Map_values_def
            Map_new_nil in_sync_def)
    next
      case (Some c')
      then show ?thesis
        using load_not_found [OF nf, of e]
        by (simp add: FileStorage_new_def persist_fault FileStorage_listUsers_def Map_values_def
            Map_new_nil)
    qed
  qed
  have b: "files w (resolve_path e file) = Some raw \<and> read_fault w = Some c \<and> c \<noteq> ''ENOENT'' \<longrightarrow>
      FileStorage_new e file w =
        (Some (ErrnoException c), (\<lparr>users = [], filePath = resolve_path e file\<rparr>, w))"
  proof
    assume h: "files w (resolve_path e file) = Some raw \<and> read_fault w = Some c \<and> c \<noteq> ''ENOENT''"
    then have "readFile w (filePath ?obj) = Inl (ErrnoException c)"
      by (simp add: readFile_def)
    moreover have "ErrnoException c \<noteq> ErrnoException ''ENOENT''" using h by simp
    ultimately have "load e (?obj, w) = (Inl (ErrnoException c), (?obj, w))"
      by (rule load_read_error)
    then show "FileStorage_new e file w =
        (Some (ErrnoException c), (\<lparr>users = [], filePath = resolve_path e file\<rparr>, w))"
      by (simp add: FileStorage_new_def Map_new_nil)
  qed
  have d: "files w (resolve_path e file) = None \<and> fst (FileStorage_new e file w) = None \<longrightarrow>
      files (snd (snd (FileStorage_new e file w))) (resolve_path e file) =
        Some (JSON_stringify e [])"
  proof
    assume h: "files w (resolve_path e file) = None \<and> fst (FileStorage_new e file w) = None"
    then have nf: "files w (filePath ?obj) = None" by simp
    have "snapshot_fault w = None"
    proof (cases "snapshot_fault w")
      case None
      then show ?thesis .
    next
      case (Some c')
      then have "fst (FileStorage_new e file w) = Some (ErrnoException c')"
        using load_not_found [OF nf, of e] by (simp add: FileStorage_new_def persist_fault)
      with h show ?thesis by simp
    qed
    with a h show "files (snd (snd (FileStorage_new e file w))) (resolve_path e file) =
        Some (JSON_stringify e [])"
      by simp
  qed
  from a b d show ?thesis by simp
qed

theorem C3_bootstrap_witness:
  "files fresh_disk (resolve_path example_env (Some ''data/users.json'')) = None \<and>
   snapshot_fault fresh_disk = None \<and>
   fst (FileStorage_new example_env (Some ''data/users.json'') fresh_disk) = None \<and>
   FileStorage_listUsers (snd (FileStorage_new example_env (Some ''data/users.json'') fresh_disk)) = [] \<and>
   files (snd (snd (FileStorage_new example_env (Some ''data/users.json'') fresh_disk)))
     ''data/users.json'' = Some ''[]'' \<and>
   files unreadable_disk ''data/users.json'' = Some (example_stringify [alice]) \<and>
   FileStorage_new example_env (Some ''data/users.json'') unreadable_disk =
     (Some (ErrnoException ''EACCES''), (\<lparr>users = [], filePath = ''data/users.json''\<rparr>, unreadable_disk))"
  using C3_bootstrap [of fresh_disk example_env "Some ''data/users.json''" "example_stringify [alice]" "''EACCES''"]
    C3_bootstrap [of unreadable_disk example_env "Some ''data/users.json''" "example_stringify [alice]" "''EACCES''"]
  by (simp add: resolve_path_def fresh_disk_def no_files_def snapshot_fault_def example_env_def
      example_stringify_nil unreadable_disk_def alice_disk_def)

subsection \<open>C4: two records with one id in the file\<close>

text \<open>
  Claim C4. When the snapshot file is read and parses as a sequence of records, then
  for every record of the file exactly one record with its id is in \<open>listUsers()\<close> after
  readiness, namely the last record of the file that has this id; \<open>getUser\<close> on the id
  yields it, and \<open>listUsers()\<close> holds records of the file only.
\<close>

theorem C4_duplicate_ids:
  assumes "readFile w (resolve_path e file) = Inr raw"
    and "JSON_parse e raw = Inr arr"
    and "u \<in> set arr"
  shows
  "filter (\<lambda>v. user_id v = user_id u) (FileStorage_listUsers (snd (FileStorage_new e file w))) =
     [last (filter (\<lambda>v. user_id v = user_id u) arr)] \<and>
   FileStorage_getUser (user_id u) (snd (FileStorage_new e file w)) =
     Some (last (filter (\<lambda>v. user_id v = user_id u) arr)) \<and>
   set (FileStorage_listUsers (snd (FileStorage_new e file w))) \<subseteq> set arr"
proof -
  let ?m = "Map_new (map (\<lambda>u. (user_id u, u)) arr)"
  let ?l = "last (filter (\<lambda>v. user_id v = user_id u) arr)"
  have st: "users (fst (snd (FileStorage_new e file w))) = ?m"
    by (simp add: new_parsed [OF assms(1,2)])
  have "user_id u \<in> user_id ` set arr" using assms(3) by simp
  then have g: "Map_get ?m (user_id u) = Some ?l"
    by (simp add: Map_get_new map_of_rev_last)
  have "filter (\<lambda>v. user_id v = user_id u) (Map_values ?m) =
      (case Map_get ?m (user_id u) of None \<Rightarrow> [] | Some r \<Rightarrow> [r])"
    by (rule values_once) (simp_all add: distinct_Map_new keys_are_ids_new)
  then have f: "filter (\<lambda>v. user_id v = user_id u) (Map_values ?m) = [?l]"
    by (simp add: g)
  have "set (Map_values ?m) \<subseteq> set arr"
  proof
    fix r assume "r \<in> set (Map_values ?m)"
    then obtain k where "(k, r) \<in> set ?m" by (auto simp: Map_values_def)
    then have "Map_get ?m k = Some r"
      by (simp add: Map_get_def distinct_Map_new)
    then have "map_of (rev (map (\<lambda>u. (user_id u, u)) arr)) k = Some r"
      by (simp add: Map_get_new)
    then have "(k, r) \<in> set (rev (map (\<lambda>u. (user_id u, u)) arr))" by (rule map_of_SomeD)
    then show "r \<in> set arr" by auto
  qed
  with f g st show ?thesis
    by (simp add: FileStorage_listUsers_def FileStorage_getUser_def)
qed

theorem C4_duplicate_ids_witness:
  "readFile duplicate_disk (resolve_path example_env (Some ''data/users.json'')) =
     Inr (example_stringify [alice, alice_again]) \<and>
   JSON_parse example_env (example_stringify [alice, alice_again]) = Inr [alice, alice_again] \<and>
   user_id alice = user_id alice_again \<and>
   FileStorage_listUsers (snd (FileStorage_new example_env (Some ''data/users.json'') duplicate_disk)) =
     [alice_again] \<and>
   FileStorage_getUser ''a1'' (snd (FileStorage_new example_env (Some ''data/users.json'') duplicate_disk)) =
     Some alice_again"
proof -
  have r: "readFile duplicate_disk (resolve_path example_env (Some ''data/users.json'')) =
     Inr (example_stringify [alice, alice_again])"
    by (simp add: readFile_def resolve_path_def duplicate_disk_def fresh_disk_def no_files_def)
  have p: "JSON_parse example_env (example_stringify [alice, alice_again]) = Inr [alice, alice_again]"
    by (simp add: example_env_def example_parse_duplicate)
  have m: "alice \<in> set [alice, alice_again]" by simp
  have l: "FileStorage_listUsers (snd (FileStorage_new example_env (Some ''data/users.json'') duplicate_disk)) =
     [alice_again]"
    using duplicate_store_eq
    by (simp add: duplicate_store_def FileStorage_listUsers_def Map_values_def)
  show ?thesis
    using C4_duplicate_ids [OF r p m] r p l
    by (simp add: alice_def alice_again_def)
qed

subsection \<open>C5: updateUser\<close>

text \<open>
  Claim C5. In both stores \<open>updateUser(id, patch)\<close> on an id without a record answers
  absent and changes nothing. On an id with a record it answers the merged record:
  a field that the patch has takes the value of the patch, a field that it lacks keeps
  the value of the stored record, and the id is the id of the stored record. The merged
  record is stored under the same key, every other key keeps its record, and the keys
  and their order are as before. In the Durable Store the merged record is stored
  whether or not the snapshot is written; whenever the call returns an answer, the
  answer is absent for an id without a record and the merged record otherwise (last
  conjunct), and it does return when the snapshot write is not rejected (a rejected
  write is the subject of C2).
\<close>

theorem C5_updateUser:
  "(MemStorage_getUser i mem = None \<longrightarrow> MemStorage_updateUser i patch mem = (None, mem)) \<and>
   (MemStorage_getUser i mem = Some ex \<longrightarrow>
      fst (MemStorage_updateUser i patch mem) = Some (spread_patch ex patch) \<and>
      MemStorage_getUser i (snd (MemStorage_updateUser i patch mem)) = Some (spread_patch ex patch) \<and>
      (\<forall>k. k \<noteq> i \<longrightarrow>
         MemStorage_getUser k (snd (MemStorage_updateUser i patch mem)) = MemStorage_getUser k mem) \<and>
      map fst (users (snd (MemStorage_updateUser i patch mem))) = map fst (users mem)) \<and>
   (FileStorage_getUser i (this, w) = None \<longrightarrow>
      FileStorage_updateUser e i patch (this, w) = (Inr None, (this, w))) \<and>
   (FileStorage_getUser i (this, w) = Some ex' \<longrightarrow>
      (snapshot_fault w = None \<longrightarrow>
         fst (FileStorage_updateUser e i patch (this, w)) = Inr (Some (spread_patch ex' patch))) \<and>
      FileStorage_getUser i (snd (FileStorage_updateUser e i patch (this, w))) =
        Some (spread_patch ex' patch) \<and>
      (\<forall>k. k \<noteq> i \<longrightarrow>
         FileStorage_getUser k (snd (FileStorage_updateUser e i patch (this, w))) =
           FileStorage_getUser k (this, w)) \<and>
      map fst (users (fst (snd (FileStorage_updateUser e i patch (this, w))))) =
        map fst (users this)) \<and>
   user_id (spread_patch r patch) = user_id r \<and>
   (\<forall>v. patch_username patch = Some v \<longrightarrow> username (spread_patch r patch) = v) \<and>
   (patch_username patch = None \<longrightarrow> username (spread_patch r patch) = username r) \<and>
   (\<forall>v. patch_password patch = Some v \<longrightarrow> password (spread_patch r patch) = v) \<and>
   (patch_password patch = None \<longrightarrow> password (spread_patch r patch) = password r) \<and>
   (FileStorage_updateUser e i patch (this, w) = (Inr res, st') \<longrightarrow>
      res = map_option (\<lambda>x. spread_patch x patch) (FileStorage_getUser i (this, w)))"
proof -
  have m1: "MemStorage_getUser i mem = None \<longrightarrow> MemStorage_updateUser i patch mem = (None, mem)"
    by (simp add: MemStorage_updateUser_absent)
  have m2: "MemStorage_getUser i mem = Some ex \<longrightarrow>
      fst (MemStorage_updateUser i patch mem) = Some (spread_patch ex patch) \<and>
      MemStorage_getUser i (snd (MemStorage_updateUser i patch mem)) = Some (spread_patch ex patch) \<and>
      (\<forall>k. k \<noteq> i \<longrightarrow>
         MemStorage_getUser k (snd (MemStorage_updateUser i patch mem)) = MemStorage_getUser k mem) \<and>
      map fst (users (snd (MemStorage_updateUser i patch mem))) = map fst (users mem)"
  proof
    assume a: "MemStorage_getUser i mem = Some ex"
    then have "Map_get (users mem) i = Some ex" by (simp add: MemStorage_getUser_def)
    then show "fst (MemStorage_updateUser i patch mem) = Some (spread_patch ex patch) \<and>
      MemStorage_getUser i (snd (MemStorage_updateUser i patch mem)) = Some (spread_patch ex patch) \<and>
      (\<forall>k. k \<noteq> i \<longrightarrow>
         MemStorage_getUser k (snd (MemStorage_updateUser i patch mem)) = MemStorage_getUser k mem) \<and>
      map fst (users (snd (MemStorage_updateUser i patch mem))) = map fst (users mem)"
      by (simp add: MemStorage_updateUser_present [OF a] MemStorage_getUser_def Map_get_set
          keys_Map_set_present)
  qed
  have f1: "FileStorage_getUser i (this, w) = None \<longrightarrow>
      FileStorage_updateUser e i patch (this, w) = (Inr None, (this, w))"
    by (simp add: FileStorage_getUser_def updateUser_absent)
  have f2: "FileStorage_getUser i (this, w) = Some ex' \<longrightarrow>
      (snapshot_fault w = None \<longrightarrow>
         fst (FileStorage_updateUser e i patch (this, w)) = Inr (Some (spread_patch ex' patch))) \<and>
      FileStorage_getUser i (snd (FileStorage_updateUser e i patch (this, w))) =
        Some (spread_patch ex' patch) \<and>
      (\<forall>k. k \<noteq> i \<longrightarrow>
         FileStorage_getUser k (snd (FileStorage_updateUser e i patch (this, w))) =
           FileStorage_getUser k (this, w)) \<and>
      map fst (users (fst (snd (FileStorage_updateUser e i patch (this, w))))) =
        map fst (users this)"
  proof
    assume "FileStorage_getUser i (this, w) = Some ex'"
    then have g: "Map_get (users this) i = Some ex'" by (simp add: FileStorage_getUser_def)
    show "(snapshot_fault w = None \<longrightarrow>
         fst (FileStorage_updateUser e i patch (this, w)) = Inr (Some (spread_patch ex' patch))) \<and>
      FileStorage_getUser i (snd (FileStorage_updateUser e i patch (this, w))) =
        Some (spread_patch ex' patch) \<and>
      (\<forall>k. k \<noteq> i \<longrightarrow>
         FileStorage_getUser k (snd (FileStorage_updateUser e i patch (this, w))) =
           FileStorage_getUser k (this, w)) \<and>
      map fst (users (fst (snd (FileStorage_updateUser e i patch (this, w))))) =
        map fst (users this)"
      using g
      by (simp add: FileStorage_getUser_def FileStorage_updateUser_users [OF g] Map_get_set
          keys_Map_set_present updateUser_ok)
  qed
  have p: "user_id (spread_patch r patch) = user_id r \<and>
   (\<forall>v. patch_username patch = Some v \<longrightarrow> username (spread_patch r patch) = v) \<and>
   (patch_username patch = None \<longrightarrow> username (spread_patch r patch) = username r) \<and>
   (\<forall>v. patch_password patch = Some v \<longrightarrow> password (spread_patch r patch) = v) \<and>
   (patch_password patch = None \<longrightarrow> password (spread_patch r patch) = password r)"
    by (simp add: spread_patch_fields)
  have f3: "FileStorage_updateUser e i patch (this, w) = (Inr res, st') \<longrightarrow>
      res = map_option (\<lambda>x. spread_patch x patch) (FileStorage_getUser i (this, w))"
    by (cases "snapshot_fault w"; cases "Map_get (users this) i")
       (auto simp: updateUser_ok updateUser_fault updateUser_absent FileStorage_getUser_def)
  from m1 m2 f1 f2 p f3 show ?thesis by blast
qed

theorem C5_updateUser_witness:
  "MemStorage_getUser ''zz'' alice_mem = None \<and>
   MemStorage_updateUser ''zz'' new_secret alice_mem = (None, alice_mem) \<and>
   MemStorage_getUser ''a1'' alice_mem = Some alice \<and>
   fst (MemStorage_updateUser ''a1'' new_secret alice_mem) =
     Some \<lparr>username = ''alice'', password = ''h9'', user_id = ''a1''\<rparr> \<and>
   FileStorage_getUser ''a1'' alice_store = Some alice \<and>
   snapshot_fault (snd alice_store) = None \<and>
   fst (FileStorage_updateUser example_env ''a1'' new_secret alice_store) =
     Inr (Some \<lparr>username = ''alice'', password = ''h9'', user_id = ''a1''\<rparr>) \<and>
   FileStorage_listUsers (snd (FileStorage_updateUser example_env ''a1'' new_secret alice_store)) =
     [\<lparr>username = ''alice'', password = ''h9'', user_id = ''a1''\<rparr>] \<and>
   FileStorage_updateUser example_env ''zz'' new_secret alice_store = (Inr None, alice_store)"
proof -
  have a: "MemStorage_getUser ''a1'' alice_mem = Some alice"
    by (simp add: MemStorage_getUser_def alice_mem_def Map_get_def)
  have b: "FileStorage_getUser ''a1'' (fst alice_store, snd alice_store) = Some alice"
    by (simp add: FileStorage_getUser_def alice_store_eq Map_get_def)
  have c: "snapshot_fault (snd alice_store) = None"
    by (simp add: alice_store_eq snapshot_fault_def alice_disk_def fresh_disk_def)
  have z: "MemStorage_getUser ''zz'' alice_mem = None"
    by (simp add: MemStorage_getUser_def alice_mem_def Map_get_def)
  have z': "FileStorage_getUser ''zz'' (fst alice_store, snd alice_store) = None"
    by (simp add: FileStorage_getUser_def alice_store_eq Map_get_def)
  have l: "FileStorage_listUsers (snd (FileStorage_updateUser example_env ''a1'' new_secret alice_store)) =
     [spread_patch alice new_secret]"
    using FileStorage_updateUser_users [of "fst alice_store" "''a1''" alice example_env new_secret "snd alice_store"] b
    by (simp add: FileStorage_listUsers_def FileStorage_getUser_def Map_values_def alice_store_eq)
  show ?thesis
    using C5_updateUser [of "''a1''" alice_mem new_secret alice "fst alice_store" "snd alice_store"
        example_env alice alice]
      C5_updateUser [of "''zz''" alice_mem new_secret alice "fst alice_store" "snd alice_store"
        example_env alice alice]
      a b c z z' l
    by (simp add: alice_def spread_patch_def new_secret_def)
qed

subsection \<open>C6: createUser\<close>




subsection \<open>C7: deleteUser\<close>

text \<open>
  Claim C7. In both stores \<open>deleteUser(id)\<close> answers \<open>true\<close> exactly when a record with that
  id was stored, and afterwards no record is stored under the id while every other key
  keeps its record; when no record was stored the call answers \<open>false\<close> and changes
  nothing. A second \<open>deleteUser(id)\<close> right after the first answers \<open>false\<close> and leaves
  the store as the first call left it. In the Durable Store the record leaves the
  collection whether or not the snapshot is written; whenever the call returns an
  answer, the answer is \<open>true\<close> exactly when a record was stored (last conjunct), and
  it does return when the snapshot write is not rejected (a rejected write is the
  subject of C2).
\<close>

theorem C7_deleteUser:
  "fst (MemStorage_deleteUser i mem) = (MemStorage_getUser i mem \<noteq> None) \<and>
   MemStorage_getUser i (snd (MemStorage_deleteUser i mem)) = None \<and>
   (\<forall>k. k \<noteq> i \<longrightarrow>
      MemStorage_getUser k (snd (MemStorage_deleteUser i mem)) = MemStorage_getUser k mem) \<and>
   (MemStorage_getUser i mem = None \<longrightarrow> snd (MemStorage_deleteUser i mem) = mem) \<and>
   MemStorage_deleteUser i (snd (MemStorage_deleteUser i mem)) =
     (False, snd (MemStorage_deleteUser i mem)) \<and>
   (snapshot_fault w = None \<longrightarrow>
      fst (FileStorage_deleteUser e i (this, w)) = Inr (FileStorage_getUser i (this, w) \<noteq> None)) \<and>
   FileStorage_getUser i (snd (FileStorage_deleteUser e i (this, w))) = None \<and>
   (\<forall>k. k \<noteq> i \<longrightarrow>
      FileStorage_getUser k (snd (FileStorage_deleteUser e i (this, w))) =
        FileStorage_getUser k (this, w)) \<and>
   (FileStorage_getUser i (this, w) = None \<longrightarrow>
      FileStorage_deleteUser e i (this, w) = (Inr False, (this, w))) \<and>
   FileStorage_deleteUser e i (snd (FileStorage_deleteUser e i (this, w))) =
     (Inr False, snd (FileStorage_deleteUser e i (this, w))) \<and>
   (FileStorage_deleteUser e i (this, w) = (Inr b, st') \<longrightarrow>
      b = (FileStorage_getUser i (this, w) \<noteq> None))"
proof -
  let ?m = "snd (MemStorage_deleteUser i mem)"
  let ?st = "snd (FileStorage_deleteUser e i (this, w))"
  have m1: "fst (MemStorage_deleteUser i mem) = (MemStorage_getUser i mem \<noteq> None)"
    by (simp add: MemStorage_deleteUser_eq MemStorage_getUser_def Map_has_get)
  have m2: "MemStorage_getUser i ?m = None"
    by (simp add: MemStorage_deleteUser_eq MemStorage_getUser_def Map_get_delete)
  have m3: "\<forall>k. k \<noteq> i \<longrightarrow> MemStorage_getUser k ?m = MemStorage_getUser k mem"
    by (simp add: MemStorage_deleteUser_eq MemStorage_getUser_def Map_get_delete)
  have m4: "MemStorage_getUser i mem = None \<longrightarrow> ?m = mem"
  proof
    assume "MemStorage_getUser i mem = None"
    then have "\<not> Map_has (users mem) i" by (simp add: MemStorage_getUser_def Map_has_get)
    then show "?m = mem" by (simp add: MemStorage_deleteUser_eq Map_delete_absent)
  qed
  have m5: "MemStorage_deleteUser i ?m = (False, ?m)"
    by (simp add: MemStorage_deleteUser_eq Map_has_delete Map_delete_absent)
  have f1: "snapshot_fault w = None \<longrightarrow>
      fst (FileStorage_deleteUser e i (this, w)) = Inr (FileStorage_getUser i (this, w) \<noteq> None)"
    by (cases "Map_has (users this) i")
       (simp_all add: deleteUser_ok deleteUser_absent FileStorage_getUser_def Map_has_get)
  have f2: "FileStorage_getUser i ?st = None"
    by (simp add: FileStorage_getUser_def FileStorage_deleteUser_users Map_get_delete)
  have f3: "\<forall>k. k \<noteq> i \<longrightarrow> FileStorage_getUser k ?st = FileStorage_getUser k (this, w)"
    by (simp add: FileStorage_getUser_def FileStorage_deleteUser_users Map_get_delete)
  have f4: "FileStorage_getUser i (this, w) = None \<longrightarrow>
      FileStorage_deleteUser e i (this, w) = (Inr False, (this, w))"
  proof
    assume "FileStorage_getUser i (this, w) = None"
    then have "\<not> Map_has (users this) i" by (simp add: FileStorage_getUser_def Map_has_get)
    then show "FileStorage_deleteUser e i (this, w) = (Inr False, (this, w))"
      by (rule deleteUser_absent)
  qed
  have "\<not> Map_has (users (fst ?st)) i"
    by (simp add: FileStorage_deleteUser_users Map_has_delete)
  then have f5: "FileStorage_deleteUser e i ?st = (Inr False, ?st)"
    using deleteUser_absent [of "fst ?st" i e "snd ?st"] by simp
  have f6: "FileStorage_deleteUser e i (this, w) = (Inr b, st') \<longrightarrow>
      b = (FileStorage_getUser i (this, w) \<noteq> None)"
    by (cases "snapshot_fault w"; cases "Map_has (users this) i")
       (auto simp: deleteUser_ok deleteUser_fault deleteUser_absent FileStorage_getUser_def
          Map_has_get)
  from m1 m2 m3 m4 m5 f1 f2 f3 f4 f5 f6 show ?thesis by blast
qed

theorem C7_deleteUser_witness:
  "snapshot_fault (snd alice_store) = None \<and>
   MemStorage_deleteUser ''a1'' alice_mem = (True, MemStorage_new) \<and>
   MemStorage_deleteUser ''a1'' MemStorage_new = (False, MemStorage_new) \<and>
   fst (FileStorage_deleteUser example_env ''a1'' alice_store) = Inr True \<and>
   FileStorage_listUsers (snd (FileStorage_deleteUser example_env ''a1'' alice_store)) = [] \<and>
   fst (FileStorage_deleteUser example_env ''a1''
          (snd (FileStorage_deleteUser example_env ''a1'' alice_store))) = Inr False"
  using C7_deleteUser [of "''a1''" alice_mem "snd alice_store" example_env "fst alice_store"]
  by (simp add: alice_store_eq alice_mem_def MemStorage_new_def Map_new_def MemStorage_deleteUser_eq
      Map_delete_def Map_has_def MemStorage_getUser_def FileStorage_getUser_def Map_get_def
      snapshot_fault_def alice_disk_def fresh_disk_def FileStorage_listUsers_def Map_values_def
      FileStorage_deleteUser_users)

subsection \<open>C8: the round trip\<close>

text \<open>
  Claim C8. Take a collection in which no two records have the same id, and let
  \<open>JSON.parse\<close> give back the array that \<open>JSON.stringify\<close> printed. Then, when the write
  and the read are not rejected, \<open>persist\<close> writes the serialization of the collection to
  the snapshot file, and \<open>load\<close> of that file into a new store succeeds and yields the
  same records, in the same order, hence the same set. When the keys are distinct and
  are the ids, the reloaded collection is the original one, keys included. Every
  collection that a Durable Store holds after a sequence of calls has records with
  pairwise different ids (last conjunct), so the round trip covers all of them.
\<close>

theorem C8_round_trip:
  assumes "distinct (map user_id (Map_values (users this)))"
    and "JSON_parse e (JSON_stringify e (Map_values (users this))) = Inr (Map_values (users this))"
    and "snapshot_fault w = None"
    and "read_fault w = None"
  shows
  "fst (persist e (this, w)) = Inr () \<and>
   files (snd (snd (persist e (this, w)))) (filePath this) =
     Some (JSON_stringify e (Map_values (users this))) \<and>
   fst (load e (\<lparr>users = Map_new [], filePath = filePath this\<rparr>, snd (snd (persist e (this, w))))) =
     Inr () \<and>
   FileStorage_listUsers
     (snd (load e (\<lparr>users = Map_new [], filePath = filePath this\<rparr>, snd (snd (persist e (this, w)))))) =
     FileStorage_listUsers (this, w) \<and>
   set (FileStorage_listUsers
     (snd (load e (\<lparr>users = Map_new [], filePath = filePath this\<rparr>, snd (snd (persist e (this, w))))))) =
     set (FileStorage_listUsers (this, w)) \<and>
   (distinct (map fst (users this)) \<and> keys_are_ids (users this) \<longrightarrow>
      users (fst (snd (load e (\<lparr>users = Map_new [], filePath = filePath this\<rparr>,
                               snd (snd (persist e (this, w))))))) = users this) \<and>
   distinct (map user_id
     (FileStorage_listUsers (snd (FileStorage_run e cs (snd (FileStorage_new e file w0))))))"
proof -
  let ?raw = "JSON_stringify e (Map_values (users this))"
  let ?w' = "w\<lparr>files := (files w)(filePath this \<mapsto> ?raw)\<rparr>"
  let ?obj = "\<lparr>users = Map_new [], filePath = filePath this\<rparr>"
  have p: "persist e (this, w) = (Inr (), (this, ?w'))"
    using assms(3) by (rule persist_ok)
  have "readFile ?w' (filePath ?obj) = Inr ?raw"
    using assms(4) by (simp add: readFile_def)
  from load_parsed [OF this assms(2)]
  have l: "load e (?obj, ?w') =
      (Inr (), (?obj\<lparr>users := Map_new (map (\<lambda>u. (user_id u, u)) (Map_values (users this)))\<rparr>, ?w'))" .
  have v: "Map_values (Map_new (map (\<lambda>u. (user_id u, u)) (Map_values (users this)))) =
      Map_values (users this)"
    using assms(1) by (rule rekey_distinct)
  have k: "distinct (map fst (users this)) \<and> keys_are_ids (users this) \<longrightarrow>
      Map_new (map (\<lambda>u. (user_id u, u)) (Map_values (users this))) = users this"
    by (simp add: rekey_store)
  have r: "distinct (map user_id
     (FileStorage_listUsers (snd (FileStorage_run e cs (snd (FileStorage_new e file w0))))))"
    by (rule reached_distinct_ids)
  have "fst (persist e (this, w)) = Inr () \<and>
   files (snd (snd (persist e (this, w)))) (filePath this) =
     Some (JSON_stringify e (Map_values (users this))) \<and>
   fst (load e (\<lparr>users = Map_new [], filePath = filePath this\<rparr>, snd (snd (persist e (this, w))))) =
     Inr () \<and>
   FileStorage_listUsers
     (snd (load e (\<lparr>users = Map_new [], filePath = filePath this\<rparr>, snd (snd (persist e (this, w)))))) =
     FileStorage_listUsers (this, w) \<and>
   set (FileStorage_listUsers
     (snd (load e (\<lparr>users = Map_new [], filePath = filePath this\<rparr>, snd (snd (persist e (this, w))))))) =
     set (FileStorage_listUsers (this, w)) \<and>
   (distinct (map fst (users this)) \<and> keys_are_ids (users this) \<longrightarrow>
      users (fst (snd (load e (\<lparr>users = Map_new [], filePath = filePath this\<rparr>,
                               snd (snd (persist e (this, w))))))) = users this)"
    unfolding p using k by (simp add: l v FileStorage_listUsers_def)
  with r show ?thesis by simp
qed

theorem C8_round_trip_witness:
  "distinct (map user_id (Map_values (users (fst two_store)))) \<and>
   JSON_parse example_env (JSON_stringify example_env (Map_values (users (fst two_store)))) =
     Inr (Map_values (users (fst two_store))) \<and>
   snapshot_fault (snd two_store) = None \<and>
   read_fault (snd two_store) = None \<and>
   fst (persist example_env two_store) = Inr () \<and>
   FileStorage_listUsers
     (snd (load example_env (\<lparr>users = Map_new [], filePath = ''data/users.json''\<rparr>,
                             snd (snd (persist example_env two_store))))) = [alice, bob] \<and>
   users (fst (snd (load example_env (\<lparr>users = Map_new [], filePath = ''data/users.json''\<rparr>,
                                      snd (snd (persist example_env two_store)))))) =
     [(''a1'', alice), (''b2'', bob)]"
proof -
  have v: "Map_values (users (fst two_store)) = [alice, bob]"
    by (simp add: two_store_def Map_values_def)
  have 1: "distinct (map user_id (Map_values (users (fst two_store))))"
    by (simp add: v alice_def bob_def)
  have 2: "JSON_parse example_env (JSON_stringify example_env (Map_values (users (fst two_store)))) =
     Inr (Map_values (users (fst two_store)))"
    by (simp add: v example_env_def example_parse_two)
  have 3: "snapshot_fault (snd two_store) = None"
    by (simp add: two_store_def snapshot_fault_def fresh_disk_def)
  have 4: "read_fault (snd two_store) = None"
    by (simp add: two_store_def fresh_disk_def)
  have 5: "distinct (map fst (users (fst two_store))) \<and> keys_are_ids (users (fst two_store))"
    by (simp add: two_store_def keys_are_ids_def alice_def bob_def)
  have 6: "filePath (fst two_store) = ''data/users.json''"
    "FileStorage_listUsers two_store = [alice, bob]"
    "users (fst two_store) = [(''a1'', alice), (''b2'', bob)]"
    by (simp_all add: two_store_def FileStorage_listUsers_def Map_values_def)
  show ?thesis
    using C8_round_trip [OF 1 2 3 4] 1 2 3 4 5 6 by simp
qed

subsection \<open>C9: the two stores are interchangeable\<close>

text \<open>
  Claim C9. Let the Durable Store be constructed over a path that has no file, on a
  file system that rejects neither \<open>mkdir\<close> nor \<open>writeFile\<close>, and let both stores take the
  same sequence of calls of the six operations, \<open>randomUUID()\<close> returning the same
  identifiers to both. Then nothing is logged at startup, every call of the Durable
  Store returns the result that the call of the Volatile Store returns, and at the end
  both hold the same collection: the same records in the same order, hence the same
  set. The Durable Store differs in the file alone, which holds the serialization of
  that collection.
\<close>

theorem C9_interchangeable:
  assumes "files w (resolve_path e file) = None"
    and "snapshot_fault w = None"
  shows
  "fst (FileStorage_new e file w) = None \<and>
   fst (FileStorage_run e cs (snd (FileStorage_new e file w))) =
     map Inr (fst (MemStorage_run cs MemStorage_new)) \<and>
   memory_of (snd (FileStorage_run e cs (snd (FileStorage_new e file w)))) =
     snd (MemStorage_run cs MemStorage_new) \<and>
   FileStorage_listUsers (snd (FileStorage_run e cs (snd (FileStorage_new e file w)))) =
     MemStorage_listUsers (snd (MemStorage_run cs MemStorage_new)) \<and>
   set (FileStorage_listUsers (snd (FileStorage_run e cs (snd (FileStorage_new e file w))))) =
     set (MemStorage_listUsers (snd (MemStorage_run cs MemStorage_new))) \<and>
   in_sync e (snd (FileStorage_run e cs (snd (FileStorage_new e file w))))"
proof -
  let ?obj = "\<lparr>users = Map_new [], filePath = resolve_path e file\<rparr>"
  let ?st = "snd (FileStorage_new e file w)"
  have nf: "files w (filePath ?obj) = None" using assms(1) by simp
  have new: "FileStorage_new e file w =
      (None, (\<lparr>users = [], filePath = resolve_path e file\<rparr>,
              w\<lparr>files := (files w)(resolve_path e file \<mapsto> JSON_stringify e [])\<rparr>))"
    using load_not_found [OF nf, of e] assms(2)
    by (simp add: FileStorage_new_def persist_ok Map_new_nil Map_values_def)
  have u: "users (fst ?st) = users MemStorage_new"
    by (simp add: new MemStorage_new_def Map_new_nil)
  have f: "snapshot_fault (snd ?st) = None" using assms(2) by (simp add: new)
  have s: "in_sync e ?st" by (simp add: new in_sync_def Map_values_def)
  from run_sim [OF u f s, of cs]
  have r: "fst (FileStorage_run e cs ?st) = map Inr (fst (MemStorage_run cs MemStorage_new))"
    and us: "users (fst (snd (FileStorage_run e cs ?st))) =
      users (snd (MemStorage_run cs MemStorage_new))"
    and sy: "in_sync e (snd (FileStorage_run e cs ?st))"
    by simp_all
  have m: "memory_of (snd (FileStorage_run e cs ?st)) = snd (MemStorage_run cs MemStorage_new)"
    using us by (simp add: memory_of_def)
  from r us sy m show ?thesis
    by (simp add: new FileStorage_listUsers_def MemStorage_listUsers_def)
qed

theorem C9_interchangeable_witness:
  "files fresh_disk (resolve_path example_env (Some ''data/users.json'')) = None \<and>
   snapshot_fault fresh_disk = None \<and>
   fst (FileStorage_run example_env example_calls
          (snd (FileStorage_new example_env (Some ''data/users.json'') fresh_disk))) =
     [Inr (Created alice), Inr (Created bob),
      Inr (Updated (Some \<lparr>username = ''alice'', password = ''h9'', user_id = ''a1''\<rparr>)),
      Inr (Found (Some \<lparr>username = ''alice'', password = ''h9'', user_id = ''a1''\<rparr>)),
      Inr (Found (Some bob)), Inr (Deleted True), Inr (Deleted False),
      Inr (Listed [\<lparr>username = ''alice'', password = ''h9'', user_id = ''a1''\<rparr>])] \<and>
   fst (MemStorage_run example_calls MemStorage_new) =
     [Created alice, Created bob,
      Updated (Some \<lparr>username = ''alice'', password = ''h9'', user_id = ''a1''\<rparr>),
      Found (Some \<lparr>username = ''alice'', password = ''h9'', user_id = ''a1''\<rparr>),
      Found (Some bob), Deleted True, Deleted False,
      Listed [\<lparr>username = ''alice'', password = ''h9'', user_id = ''a1''\<rparr>]] \<and>
   FileStorage_listUsers (snd (FileStorage_run example_env example_calls
          (snd (FileStorage_new example_env (Some ''data/users.json'') fresh_disk)))) =
     [\<lparr>username = ''alice'', password = ''h9'', user_id = ''a1''\<rparr>]"
proof -
  have 1: "files fresh_disk (resolve_path example_env (Some ''data/users.json'')) = None"
    by (simp add: fresh_disk_def no_files_def)
  have 2: "snapshot_fault fresh_disk = None"
    by (simp add: fresh_disk_def snapshot_fault_def)
  show ?thesis
    using C9_interchangeable [OF 1 2, of example_calls] 1 2
    by (simp add: Mem_run_example MemStorage_listUsers_def Map_values_def)
qed

subsection \<open>C10: keys are ids\<close>

text \<open>
  Claim C10. Every key of the collection is the id of the record stored under it.
  This holds for a new Volatile Store and for a new Durable Store whatever its load
  finds (a parsed file, no file, an unreadable or corrupt file); \<open>load\<close>, \<open>createUser\<close>,
  \<open>updateUser\<close> and \<open>deleteUser\<close> of either store keep it, whether the snapshot write
  goes through or not; so it holds after every sequence of calls. Where it holds,
  \<open>getUser(id)\<close> is absent or a record whose id is the argument.
\<close>

theorem C10_keys_are_ids:
  "keys_are_ids (users MemStorage_new) \<and>
   keys_are_ids (users (fst (snd (FileStorage_new e file w)))) \<and>
   (keys_are_ids (users mem) \<longrightarrow>
      keys_are_ids (users (snd (MemStorage_createUser rid ins mem))) \<and>
      keys_are_ids (users (snd (MemStorage_updateUser i patch mem))) \<and>
      keys_are_ids (users (snd (MemStorage_deleteUser i mem))) \<and>
      (MemStorage_getUser i mem = None \<or>
       (\<exists>u. MemStorage_getUser i mem = Some u \<and> user_id u = i))) \<and>
   (keys_are_ids (users this) \<longrightarrow>
      keys_are_ids (users (fst (snd (load e (this, w'))))) \<and>
      keys_are_ids (users (fst (snd (FileStorage_createUser e rid ins (this, w'))))) \<and>
      keys_are_ids (users (fst (snd (FileStorage_updateUser e i patch (this, w'))))) \<and>
      keys_are_ids (users (fst (snd (FileStorage_deleteUser e i (this, w'))))) \<and>
      (FileStorage_getUser i (this, w') = None \<or>
       (\<exists>u. FileStorage_getUser i (this, w') = Some u \<and> user_id u = i))) \<and>
   keys_are_ids (users (snd (MemStorage_run cs MemStorage_new))) \<and>
   keys_are_ids (users (fst (snd (FileStorage_run e cs (snd (FileStorage_new e file w))))))"
proof -
  have n: "keys_are_ids (users MemStorage_new)"
    by (simp add: MemStorage_new_def Map_new_nil keys_are_ids_nil)
  have gm: "keys_are_ids (users mem) \<longrightarrow>
      (MemStorage_getUser i mem = None \<or>
       (\<exists>u. MemStorage_getUser i mem = Some u \<and> user_id u = i))"
    by (cases "MemStorage_getUser i mem")
       (auto simp: MemStorage_getUser_def dest: keys_are_ids_get)
  have gf: "keys_are_ids (users this) \<longrightarrow>
      (FileStorage_getUser i (this, w') = None \<or>
       (\<exists>u. FileStorage_getUser i (this, w') = Some u \<and> user_id u = i))"
    by (cases "FileStorage_getUser i (this, w')")
       (auto simp: FileStorage_getUser_def dest: keys_are_ids_get)
  have rm: "keys_are_ids (users (snd (MemStorage_run cs MemStorage_new)))"
    using n by (rule Mem_run_keys)
  have rf: "keys_are_ids (users (fst (snd (FileStorage_run e cs (snd (FileStorage_new e file w))))))"
    using new_keys by (rule File_run_keys)
  have om: "keys_are_ids (users mem) \<longrightarrow>
      keys_are_ids (users (snd (MemStorage_createUser rid ins mem))) \<and>
      keys_are_ids (users (snd (MemStorage_updateUser i patch mem))) \<and>
      keys_are_ids (users (snd (MemStorage_deleteUser i mem)))"
    by (simp add: Mem_ops_keys)
  have ofl: "keys_are_ids (users this) \<longrightarrow>
      keys_are_ids (users (fst (snd (load e (this, w'))))) \<and>
      keys_are_ids (users (fst (snd (FileStorage_createUser e rid ins (this, w'))))) \<and>
      keys_are_ids (users (fst (snd (FileStorage_updateUser e i patch (this, w'))))) \<and>
      keys_are_ids (users (fst (snd (FileStorage_deleteUser e i (this, w')))))"
    by (simp add: File_ops_keys load_keys)
  have nf: "keys_are_ids (users (fst (snd (FileStorage_new e file w))))"
    by (rule new_keys)
  from n nf om ofl gm gf rm rf show ?thesis by simp
qed

theorem C10_keys_are_ids_witness:
  "keys_are_ids (users alice_mem) \<and>
   keys_are_ids (users (snd (MemStorage_createUser ''b2'' bob_fields alice_mem))) \<and>
   keys_are_ids (users (snd (MemStorage_updateUser ''a1'' new_secret alice_mem))) \<and>
   MemStorage_getUser ''a1'' alice_mem = Some alice \<and>
   user_id alice = ''a1'' \<and>
   keys_are_ids (users (fst alice_store)) \<and>
   keys_are_ids (users (fst (snd (FileStorage_createUser example_env ''b2'' bob_fields alice_store)))) \<and>
   keys_are_ids (users (fst (snd (FileStorage_updateUser example_env ''a1'' new_secret alice_store)))) \<and>
   FileStorage_getUser ''a1'' alice_store = Some alice \<and>
   keys_are_ids (users (fst duplicate_store)) \<and>
   keys_are_ids (users (snd (MemStorage_run example_calls MemStorage_new))) \<and>
   keys_are_ids (users (fst (snd (FileStorage_run example_env example_calls
      (snd (FileStorage_new example_env (Some ''data/users.json'') fresh_disk))))))"
proof -
  have 1: "keys_are_ids (users alice_mem)"
    by (simp add: alice_mem_def keys_are_ids_def alice_def)
  have 2: "keys_are_ids (users (fst alice_store))"
    by (simp add: alice_store_eq keys_are_ids_def alice_def)
  have 3: "MemStorage_getUser ''a1'' alice_mem = Some alice"
    by (simp add: MemStorage_getUser_def alice_mem_def Map_get_def)
  have 4: "FileStorage_getUser ''a1'' alice_store = Some alice"
    by (simp add: FileStorage_getUser_def alice_store_eq Map_get_def)
  have 5: "user_id alice = ''a1''" by (simp add: alice_def)
  have 6: "keys_are_ids (users (fst duplicate_store))"
    using C10_keys_are_ids [of example_env "Some ''data/users.json''" duplicate_disk]
    by (simp add: duplicate_store_def)
  show ?thesis
    using C10_keys_are_ids [of example_env "Some ''data/users.json''" fresh_disk alice_mem "''b2''"
        bob_fields "''a1''" new_secret "fst alice_store" "snd alice_store" example_calls]
      C10_keys_are_ids [of example_env "Some ''data/users.json''" fresh_disk alice_mem "''b2''"
        bob_fields "''b2''" new_secret "fst alice_store" "snd alice_store" example_calls]
      1 2 3 4 5 6
    by simp
qed

end
